theory Spec2Isabelle
  imports Main
begin

section \<open>HTTP values\<close>

text \<open>
  Go error values. \<open>ErrorString\<close> is an error made by \<open>fmt.Errorf\<close> or returned
  by the standard library or the transport, identified by its message;
  \<open>Canceled\<close> and \<open>DeadlineExceeded\<close> are the two values \<open>ctx.Err()\<close> returns
  once the context is done.
\<close>

datatype error = ErrorString string | Canceled | DeadlineExceeded

text \<open>
  \<open>*http.Request\<close>, with the context it was built for. \<open>'c\<close> is the type of
  contexts; the model never looks inside one.
\<close>

record 'c Request =
  Method :: string
  URL :: string
  Header :: "string \<rightharpoonup> string"
  Payload :: "string option"
  Ctx :: 'c

text \<open>
  \<open>*http.Response\<close>. \<open>Body\<close> is what \<open>io.ReadAll(resp.Body)\<close> returns: the bytes
  read and the read error, if any.
\<close>

record Response =
  StatusCode :: int
  Body :: "string \<times> error option"

text \<open>
  The pair \<open>(*http.Response, error)\<close> a handler returns. Either component may be
  nil, as in Go. \<open>'w\<close> is the state of everything outside the client (the network,
  the clock, whatever a middleware records); a handler is a state transformer.
\<close>

type_synonym result = "Response option \<times> error option"

type_synonym ('c, 'w) RequestHandler = "'c \<Rightarrow> 'c Request \<Rightarrow> 'w \<Rightarrow> result \<times> 'w"

type_synonym ('c, 'w) MiddlewareFunc =
  "'c \<Rightarrow> 'c Request \<Rightarrow> ('c, 'w) RequestHandler \<Rightarrow> 'w \<Rightarrow> result \<times> 'w"

section \<open>Client\<close>

text \<open>One record handed to \<open>logger.Error\<close>: the message and its attributes.\<close>

datatype attr = AInt string int | AString string string | AAny string error

record log_record =
  msg :: string
  attrs :: "attr list"

text \<open>
  The client. \<open>logger\<close> is a \<open>*slog.Logger\<close> and is nil unless \<open>WithLogger\<close> set
  it; a logger is modelled by what its \<open>Error\<close> method does to the outside state.
  \<open>httpClient\<close> is \<open>c.httpClient.Do\<close>, which \<open>NewClient\<close> makes non-nil.
  The per-resource services are left out: each only points back to the client.
\<close>

record ('c, 'w) Client =
  baseURL :: string
  apiKey :: string
  logLevel :: int
  logger :: "(log_record \<Rightarrow> 'w \<Rightarrow> 'w) option"
  httpClient :: "'c Request \<Rightarrow> 'w \<Rightarrow> result \<times> 'w"
  middleware :: "('c, 'w) MiddlewareFunc list"

definition WithAPIKey :: "string \<Rightarrow> ('c, 'w) Client \<Rightarrow> ('c, 'w) Client" where
  "WithAPIKey k c = c\<lparr>apiKey := k\<rparr>"

definition WithLogLevel :: "int \<Rightarrow> ('c, 'w) Client \<Rightarrow> ('c, 'w) Client" where
  "WithLogLevel level c = c\<lparr>logLevel := level\<rparr>"

definition WithLogger ::
  "(log_record \<Rightarrow> 'w \<Rightarrow> 'w) option \<Rightarrow> ('c, 'w) Client \<Rightarrow> ('c, 'w) Client" where
  "WithLogger lg c = c\<lparr>logger := lg\<rparr>"

definition WithMiddleware ::
  "('c, 'w) MiddlewareFunc \<Rightarrow> ('c, 'w) Client \<Rightarrow> ('c, 'w) Client" where
  "WithMiddleware mw c = c\<lparr>middleware := middleware c @ [mw]\<rparr>"

text \<open>
  \<open>NewClient\<close>: the options are applied in order to a client that has only its
  base URL. \<open>dflt\<close> stands for the HTTP client \<open>NewClient\<close> installs
  (\<open>NewLoggingClientWithLogger\<close>, or the one given by \<open>WithHTTPClient\<close>).
\<close>

definition NewClient ::
  "('c Request \<Rightarrow> 'w \<Rightarrow> result \<times> 'w) \<Rightarrow> string \<Rightarrow>
   (('c, 'w) Client \<Rightarrow> ('c, 'w) Client) list \<Rightarrow> ('c, 'w) Client" where
  "NewClient dflt base opts =
     fold (\<lambda>opt client. opt client) opts
       \<lparr>baseURL = base, apiKey = [], logLevel = 0, logger = None,
        httpClient = dflt, middleware = []\<rparr>"

text \<open>\<open>req.Header.Set\<close>, for a key already in canonical form.\<close>

definition Header_Set :: "string \<Rightarrow> string \<Rightarrow> 'c Request \<Rightarrow> 'c Request" where
  "Header_Set k v req = req\<lparr>Header := (Header req)(k \<mapsto> v)\<rparr>"

text \<open>
  The loop of \<open>doRequest\<close> that wraps the handler, \<open>i\<close> running from
  \<open>len(c.middleware) - 1\<close> down to \<open>0\<close>; the counter of the model is \<open>i + 1\<close>.
\<close>

fun wrap_handlers ::
  "('c, 'w) MiddlewareFunc list \<Rightarrow> nat \<Rightarrow> ('c, 'w) RequestHandler \<Rightarrow> ('c, 'w) RequestHandler"
  where
  "wrap_handlers mws 0 handler = handler"
| "wrap_handlers mws (Suc i) handler =
     wrap_handlers mws i (\<lambda>ctx req. (mws ! i) ctx req handler)"

definition doRequest :: "('c, 'w) Client \<Rightarrow> ('c, 'w) RequestHandler" where
  "doRequest c ctx req =
     (let req1 = (if apiKey c \<noteq> [] then Header_Set ''Authorization'' (''Bearer '' @ apiKey c) req
                  else req);
          req2 = Header_Set ''Content-Type'' ''application/json'' req1;
          req3 = Header_Set ''Accept'' ''application/json'' req2;
          finalHandler = (\<lambda>ctx req. httpClient c req);
          handler = wrap_handlers (middleware c) (length (middleware c)) finalHandler
      in handler ctx req3)"

subsection \<open>Recording the order of execution\<close>

text \<open>
  What an instrumented run records: a middleware entered, the request sent,
  a middleware left.
\<close>

datatype 'l event = Entered 'l | Sent | Exited 'l

text \<open>
  A middleware that records its entry, calls \<open>next\<close> once with the request it was
  given, and records its exit before it returns what \<open>next\<close> returned.
\<close>

definition probe :: "'l \<Rightarrow> ('c, 'l event list) MiddlewareFunc" where
  "probe l ctx req next tr =
     (case next ctx req (tr @ [Entered l]) of (r, tr') \<Rightarrow> (r, tr' @ [Exited l]))"

text \<open>A transport that records the send and answers \<open>r\<close>.\<close>

definition wire :: "result \<Rightarrow> 'c Request \<Rightarrow> 'l event list \<Rightarrow> result \<times> 'l event list" where
  "wire r req tr = (r, tr @ [Sent])"

section \<open>Retry middleware\<close>

text \<open>
  The \<open>select\<close> between \<open>time.After(retryDelay)\<close> and \<open>ctx.Done()\<close>: which
  channel delivers first is decided outside the program, so it is read from
  the outside state. \<open>CtxDone e\<close> carries the value \<open>ctx.Err()\<close> returns then.
\<close>

datatype select_result = TimerFired | CtxDone error

definition Clone :: "'c \<Rightarrow> 'c Request \<Rightarrow> 'c Request" where
  "Clone ctx req = req\<lparr>Ctx := ctx\<rparr>"

text \<open>
  The \<open>for\<close> loop of \<open>RetryMiddleware\<close>; \<open>res\<close> is the pair \<open>(resp, err)\<close>
  declared before it. \<open>attempt\<close> and \<open>maxRetries\<close> are Go \<open>int\<close>s: \<open>attempt\<close> only
  grows while it is below \<open>maxRetries\<close>, so it never wraps.
\<close>

function retry_loop ::
  "(int \<Rightarrow> 'c \<Rightarrow> 'w \<Rightarrow> select_result \<times> 'w) \<Rightarrow> int \<Rightarrow> int \<Rightarrow> 'c \<Rightarrow> 'c Request \<Rightarrow>
   ('c, 'w) RequestHandler \<Rightarrow> int \<Rightarrow> result \<Rightarrow> 'w \<Rightarrow> result \<times> 'w" where
  "retry_loop sel maxRetries retryDelay ctx req next attempt res w =
     (if attempt \<le> maxRetries then
        (let clonedReq = Clone ctx req in
         case next ctx clonedReq w of
           ((resp, err), w1) \<Rightarrow>
             if err = None \<or> attempt = maxRetries then ((resp, err), w1)
             else if attempt < maxRetries then
               (case sel retryDelay ctx w1 of
                  (TimerFired, w2) \<Rightarrow>
                    retry_loop sel maxRetries retryDelay ctx req next (attempt + 1) (resp, err) w2
                | (CtxDone e, w2) \<Rightarrow> ((None, Some e), w2))
             else retry_loop sel maxRetries retryDelay ctx req next (attempt + 1) (resp, err) w1)
      else (res, w))"
  by pat_completeness auto
termination
  by (relation "measure (\<lambda>(sel, maxRetries, retryDelay, ctx, req, next, attempt, res, w).
        nat (maxRetries + 1 - attempt))") auto

definition RetryMiddleware ::
  "(int \<Rightarrow> 'c \<Rightarrow> 'w \<Rightarrow> select_result \<times> 'w) \<Rightarrow> int \<Rightarrow> int \<Rightarrow> ('c, 'w) MiddlewareFunc" where
  "RetryMiddleware sel maxRetries retryDelay ctx req next w =
     retry_loop sel maxRetries retryDelay ctx req next 0 (None, None) w"

subsection \<open>Observing a run of the retry loop\<close>

text \<open>
  What a run is observed to do: each call of \<open>next\<close> with the pair it returned,
  each wait with the way it ended. \<open>observed\<close> and \<open>observed_select\<close> record these
  in front of the outside state and change nothing else.
\<close>

datatype retry_event = Invoked result | Waited select_result

definition observed :: "('c, 'w) RequestHandler \<Rightarrow> ('c, retry_event list \<times> 'w) RequestHandler" where
  "observed next ctx req s =
     (case s of (evs, w) \<Rightarrow> case next ctx req w of (r, w') \<Rightarrow> (r, (evs @ [Invoked r], w')))"

definition observed_select ::
  "(int \<Rightarrow> 'c \<Rightarrow> 'w \<Rightarrow> select_result \<times> 'w) \<Rightarrow>
   int \<Rightarrow> 'c \<Rightarrow> retry_event list \<times> 'w \<Rightarrow> select_result \<times> retry_event list \<times> 'w" where
  "observed_select sel d ctx s =
     (case s of (evs, w) \<Rightarrow> case sel d ctx w of (x, w') \<Rightarrow> (x, (evs @ [Waited x], w')))"


fun invocations :: "retry_event list \<Rightarrow> result list" where
  "invocations [] = []"
| "invocations (Invoked r # evs) = r # invocations evs"
| "invocations (Waited x # evs) = invocations evs"

text \<open>
  Two concrete parts for evaluating a run: a handler that fails on every
  invocation and counts its invocations in the outside state, and a wait
  that always ends because the context was cancelled.
\<close>

definition refusing :: "('c, nat) RequestHandler" where
  "refusing ctx req w = ((None, Some (ErrorString ''connection refused'')), Suc w)"

definition cancelled_wait :: "int \<Rightarrow> 'c \<Rightarrow> 'w \<Rightarrow> select_result \<times> 'w" where
  "cancelled_wait d ctx w = (CtxDone Canceled, w)"

section \<open>Generic resource service\<close>

text \<open>\<open>strconv.Itoa\<close>, which is also what \<open>fmt\<close> prints for \<open>%d\<close>.\<close>

definition digit :: "nat \<Rightarrow> char" where
  "digit n = ''0123456789'' ! n"

function utoa :: "nat \<Rightarrow> string" where
  "utoa n = (if n < 10 then [digit n] else utoa (n div 10) @ [digit (n mod 10)])"
  by pat_completeness auto
termination
  by (relation "measure (\<lambda>n. n)") auto

definition Itoa :: "int \<Rightarrow> string" where
  "Itoa i = (if i < 0 then CHR ''-'' # utoa (nat (- i)) else utoa (nat i))"

text \<open>The \<open>PathHandler\<close> interface: one path per operation.\<close>

record PathHandler =
  Get_path :: "int \<Rightarrow> string"
  List_path :: string
  Create_path :: string
  Update_path :: "int \<Rightarrow> string"

definition DefaultPathHandler :: "string \<Rightarrow> PathHandler" where
  "DefaultPathHandler base =
     \<lparr>Get_path = (\<lambda>rid. base @ ''/'' @ Itoa rid), List_path = base, Create_path = base,
      Update_path = (\<lambda>rid. base @ ''/'' @ Itoa rid)\<rparr>"

text \<open>\<open>FilePathHandler\<close> embeds the default handler for \<open>files\<close> and overrides \<open>Create\<close>.\<close>

definition FilePathHandler :: PathHandler where
  "FilePathHandler = (DefaultPathHandler ''files'')\<lparr>Create_path := ''files/ref''\<rparr>"

text \<open>
  The standard library as the service uses it, for an entity type \<open>'t\<close>, a list
  type \<open>'l\<close> and query parameters \<open>'p\<close>: \<open>http.NewRequestWithContext\<close> (context,
  method, URL, body), \<open>json.Marshal\<close>, \<open>json.NewDecoder(resp.Body).Decode\<close> into
  a \<open>'t\<close> and into a \<open>'l\<close>, and \<open>url.Values.Encode\<close>. Each returns a value or an
  error, never both.
\<close>

record ('c, 't, 'l, 'p) Go =
  NewRequestWithContext :: "'c \<Rightarrow> string \<Rightarrow> string \<Rightarrow> string option \<Rightarrow> error + 'c Request"
  Marshal :: "'t \<Rightarrow> error + string"
  Decode :: "string \<times> error option \<Rightarrow> error + 't"
  DecodeList :: "string \<times> error option \<Rightarrow> error + 'l"
  Encode :: "'p \<Rightarrow> string"

record ('c, 'w) Service =
  client :: "('c, 'w) Client"
  router :: PathHandler

definition NewService :: "('c, 'w) Client \<Rightarrow> PathHandler \<Rightarrow> ('c, 'w) Service" where
  "NewService c r = \<lparr>client = c, router = r\<rparr>"

text \<open>
  A call either returns Go's pair \<open>(*T, error)\<close>, of which each component may
  be nil, or panics: on a nil pointer, the run does not return.
\<close>

datatype 'a outcome = Panic | Returned "'a option \<times> error option"

text \<open>
  \<open>s.client.logger.Error(...)\<close> followed by \<open>return nil, err\<close>. The logger is
  a pointer and \<open>NewClient\<close> leaves it nil unless \<open>WithLogger\<close> set it; calling
  \<open>Error\<close> on a nil \<open>*slog.Logger\<close> dereferences it.
\<close>

definition log_and_fail ::
  "('c, 'w) Service \<Rightarrow> log_record \<Rightarrow> error \<Rightarrow> 'w \<Rightarrow> 'a outcome \<times> 'w" where
  "log_and_fail s r err w =
     (case logger (client s) of
        None \<Rightarrow> (Panic, w)
      | Some lg \<Rightarrow> (Returned (None, Some err), lg r w))"

text \<open>
  \<open>Service.Get\<close>; \<open>rid\<close> is the parameter \<open>id\<close>. The URL logged is that of the request as it was built.
  \<open>defer resp.Body.Close()\<close> reads \<open>resp.Body\<close>, so a nil response with a nil
  error panics.
\<close>

definition Service_Get ::
  "('c, 't, 'l, 'p) Go \<Rightarrow> ('c, 'w) Service \<Rightarrow> 'c \<Rightarrow> int \<Rightarrow> 'w \<Rightarrow> 't outcome \<times> 'w" where
  "Service_Get g s ctx rid w =
     (case NewRequestWithContext g ctx ''GET''
             (baseURL (client s) @ ''/'' @ Get_path (router s) rid @ ''.json?includes=all'') None of
        Inl err \<Rightarrow>
          log_and_fail s \<lparr>msg = ''failed to create request'', attrs = [AAny ''error'' err]\<rparr> err w
      | Inr req \<Rightarrow>
          (case doRequest (client s) ctx req w of
             ((resp, Some err), w1) \<Rightarrow>
               log_and_fail s
                 \<lparr>msg = ''request failed'',
                  attrs = [AAny ''error'' err, AString ''method'' ''GET'', AString ''url'' (URL req)]\<rparr>
                 err w1
           | ((None, None), w1) \<Rightarrow> (Panic, w1)
           | ((Some resp, None), w1) \<Rightarrow>
               if StatusCode resp \<noteq> 200 then
                 (case Body resp of
                    (body, _) \<Rightarrow>
                      log_and_fail s
                        \<lparr>msg = ''unexpected status code'',
                         attrs = [AInt ''status_code'' (StatusCode resp), AString ''method'' ''GET'',
                                  AString ''url'' (URL req), AString ''response_body'' body]\<rparr>
                        (ErrorString (''unexpected status code: '' @ Itoa (StatusCode resp))) w1)
               else
                 (case Decode g (Body resp) of
                    Inl err \<Rightarrow>
                      log_and_fail s
                        \<lparr>msg = ''failed to decode response'',
                         attrs = [AAny ''error'' err, AString ''method'' ''GET'',
                                  AString ''url'' (URL req)]\<rparr>
                        err w1
                  | Inr resource \<Rightarrow> (Returned (Some resource, None), w1))))"

text \<open>\<open>Service.List\<close>.\<close>

definition Service_List ::
  "('c, 't, 'l, 'p) Go \<Rightarrow> ('c, 'w) Service \<Rightarrow> 'c \<Rightarrow> 'p \<Rightarrow> 'w \<Rightarrow> 'l outcome \<times> 'w" where
  "Service_List g s ctx params w =
     (case NewRequestWithContext g ctx ''GET''
             (baseURL (client s) @ ''/'' @ List_path (router s) @ ''.json?'' @ Encode g params) None of
        Inl err \<Rightarrow>
          log_and_fail s \<lparr>msg = ''failed to create request'', attrs = [AAny ''error'' err]\<rparr> err w
      | Inr req \<Rightarrow>
          (case doRequest (client s) ctx req w of
             ((resp, Some err), w1) \<Rightarrow>
               log_and_fail s
                 \<lparr>msg = ''request failed'',
                  attrs = [AAny ''error'' err, AString ''method'' ''GET'', AString ''url'' (URL req)]\<rparr>
                 err w1
           | ((None, None), w1) \<Rightarrow> (Panic, w1)
           | ((Some resp, None), w1) \<Rightarrow>
               if StatusCode resp \<noteq> 200 then
                 (case Body resp of
                    (body, _) \<Rightarrow>
                      log_and_fail s
                        \<lparr>msg = ''unexpected status code'',
                         attrs = [AInt ''status_code'' (StatusCode resp), AString ''method'' ''GET'',
                                  AString ''url'' (URL req), AString ''response_body'' body]\<rparr>
                        (ErrorString (''unexpected status code: '' @ Itoa (StatusCode resp))) w1)
               else
                 (case DecodeList g (Body resp) of
                    Inl err \<Rightarrow>
                      log_and_fail s
                        \<lparr>msg = ''failed to decode response'',
                         attrs = [AAny ''error'' err, AString ''method'' ''GET'',
                                  AString ''url'' (URL req)]\<rparr>
                        err w1
                  | Inr resources \<Rightarrow> (Returned (Some resources, None), w1))))"

text \<open>
  \<open>Service.Create\<close>. Unlike the other three it checks the error of
  \<open>io.ReadAll\<close> and puts the body into the error it returns.
\<close>

definition Service_Create ::
  "('c, 't, 'l, 'p) Go \<Rightarrow> ('c, 'w) Service \<Rightarrow> 'c \<Rightarrow> 't \<Rightarrow> 'w \<Rightarrow> 't outcome \<times> 'w" where
  "Service_Create g s ctx resource w =
     (case Marshal g resource of
        Inl err \<Rightarrow>
          log_and_fail s \<lparr>msg = ''failed to marshal request body'', attrs = [AAny ''error'' err]\<rparr>
            err w
      | Inr body \<Rightarrow>
     (case NewRequestWithContext g ctx ''POST''
             (baseURL (client s) @ ''/'' @ Create_path (router s) @ ''.json'') (Some body) of
        Inl err \<Rightarrow>
          log_and_fail s \<lparr>msg = ''failed to create request'', attrs = [AAny ''error'' err]\<rparr> err w
      | Inr req \<Rightarrow>
          (case doRequest (client s) ctx req w of
             ((resp, Some err), w1) \<Rightarrow>
               log_and_fail s
                 \<lparr>msg = ''request failed'',
                  attrs = [AAny ''error'' err, AString ''method'' ''POST'', AString ''url'' (URL req)]\<rparr>
                 err w1
           | ((None, None), w1) \<Rightarrow> (Panic, w1)
           | ((Some resp, None), w1) \<Rightarrow>
               if StatusCode resp \<noteq> 201 then
                 (case Body resp of
                    (b, Some err) \<Rightarrow>
                      log_and_fail s
                        \<lparr>msg = ''failed to read response body'',
                         attrs = [AAny ''error'' err, AInt ''status_code'' (StatusCode resp),
                                  AString ''method'' ''POST'', AString ''url'' (URL req)]\<rparr>
                        err w1
                  | (b, None) \<Rightarrow>
                      log_and_fail s
                        \<lparr>msg = ''unexpected status code'',
                         attrs = [AInt ''status_code'' (StatusCode resp), AString ''method'' ''POST'',
                                  AString ''url'' (URL req), AString ''response_body'' b]\<rparr>
                        (ErrorString (''unexpected status code: '' @ Itoa (StatusCode resp) @
                                      '', body: '' @ b)) w1)
               else
                 (case Decode g (Body resp) of
                    Inl err \<Rightarrow>
                      log_and_fail s
                        \<lparr>msg = ''failed to decode response'',
                         attrs = [AAny ''error'' err, AString ''method'' ''POST'',
                                  AString ''url'' (URL req)]\<rparr>
                        err w1
                  | Inr createdResource \<Rightarrow> (Returned (Some createdResource, None), w1)))))"

text \<open>\<open>Service.Update\<close>.\<close>

definition Service_Update ::
  "('c, 't, 'l, 'p) Go \<Rightarrow> ('c, 'w) Service \<Rightarrow> 'c \<Rightarrow> int \<Rightarrow> 't \<Rightarrow> 'w \<Rightarrow> 't outcome \<times> 'w" where
  "Service_Update g s ctx rid resource w =
     (case Marshal g resource of
        Inl err \<Rightarrow>
          log_and_fail s \<lparr>msg = ''failed to marshal request body'', attrs = [AAny ''error'' err]\<rparr>
            err w
      | Inr body \<Rightarrow>
     (case NewRequestWithContext g ctx ''PUT''
             (baseURL (client s) @ ''/'' @ Update_path (router s) rid @ ''.json'') (Some body) of
        Inl err \<Rightarrow>
          log_and_fail s \<lparr>msg = ''failed to create request'', attrs = [AAny ''error'' err]\<rparr> err w
      | Inr req \<Rightarrow>
          (case doRequest (client s) ctx req w of
             ((resp, Some err), w1) \<Rightarrow>
               log_and_fail s
                 \<lparr>msg = ''request failed'',
                  attrs = [AAny ''error'' err, AString ''method'' ''PUT'', AString ''url'' (URL req)]\<rparr>
                 err w1
           | ((None, None), w1) \<Rightarrow> (Panic, w1)
           | ((Some resp, None), w1) \<Rightarrow>
               if StatusCode resp \<noteq> 200 then
                 (case Body resp of
                    (body, _) \<Rightarrow>
                      log_and_fail s
                        \<lparr>msg = ''unexpected status code'',
                         attrs = [AInt ''status_code'' (StatusCode resp), AString ''method'' ''PUT'',
                                  AString ''url'' (URL req), AString ''response_body'' body]\<rparr>
                        (ErrorString (''unexpected status code: '' @ Itoa (StatusCode resp))) w1)
               else
                 (case Decode g (Body resp) of
                    Inl err \<Rightarrow>
                      log_and_fail s
                        \<lparr>msg = ''failed to decode response'',
                         attrs = [AAny ''error'' err, AString ''method'' ''PUT'',
                                  AString ''url'' (URL req)]\<rparr>
                        err w1
                  | Inr updatedResource \<Rightarrow> (Returned (Some updatedResource, None), w1)))))"

subsection \<open>A concrete setting\<close>

text \<open>
  For evaluating the service on concrete inputs: entities and lists are their
  JSON text, the request constructor and the marshaller never fail, decoding
  fails exactly when reading the body fails; the transport answers every
  request with the same pair; the logger appends its record to a list.
\<close>

definition plain_Go :: "('c, string, string, string) Go" where
  "plain_Go =
     \<lparr>NewRequestWithContext =
        (\<lambda>ctx m u b. Inr \<lparr>Method = m, URL = u, Header = Map.empty, Payload = b, Ctx = ctx\<rparr>),
      Marshal = Inr,
      Decode = (\<lambda>b. case snd b of None \<Rightarrow> Inr (fst b) | Some e \<Rightarrow> Inl e),
      DecodeList = (\<lambda>b. case snd b of None \<Rightarrow> Inr (fst b) | Some e \<Rightarrow> Inl e),
      Encode = (\<lambda>p. p)\<rparr>"

definition answering :: "result \<Rightarrow> 'c Request \<Rightarrow> 'w \<Rightarrow> result \<times> 'w" where
  "answering r req w = (r, w)"

definition recording_logger :: "log_record \<Rightarrow> log_record list \<Rightarrow> log_record list" where
  "recording_logger r w = w @ [r]"

text \<open>
  The ticket service of a client built by \<open>NewClient\<close> with that logger and a
  transport that answers \<open>r\<close>.
\<close>

definition example_service :: "result \<Rightarrow> ('c, log_record list) Service" where
  "example_service r =
     NewService
       (NewClient (answering r) ''https://h/desk/api/v2'' [WithLogger (Some recording_logger)])
       (DefaultPathHandler ''tickets'')"

section \<open>Fixture generator: the ticket type of a new ticket\<close>

text \<open>
  Modelled from the spec: the declarations of \<open>models.TicketType\<close>, \<open>models.Inbox\<close>
  and \<open>models.EntityRef\<close> are not among the sources. The spec gives every
  entity an integer identifier; the lookup in \<open>generateData\<close> reads the \<open>ID\<close> of
  a ticket type, of an inbox and of each entry of a ticket type's \<open>Inboxes\<close>,
  and nothing else. An inbox is any record that extends \<open>BaseEntity\<close>.
\<close>

record BaseEntity =
  ID :: int

record TicketType = BaseEntity +
  Inboxes :: "BaseEntity list"

text \<open>The zero value \<open>var t models.TicketType\<close> starts from.\<close>

definition zero_TicketType :: TicketType where
  "zero_TicketType = \<lparr>ID = 0, Inboxes = []\<rparr>"

text \<open>
  The innermost loop, over \<open>tt.Inboxes\<close>: on the first entry with the inbox's
  \<open>ID\<close> it assigns \<open>t = tt\<close> and breaks, which ends this loop only.
\<close>

fun match_inbox ::
  "TicketType \<Rightarrow> 'a BaseEntity_scheme \<Rightarrow> BaseEntity list \<Rightarrow> TicketType \<Rightarrow> TicketType" where
  "match_inbox tt ibx [] t = t"
| "match_inbox tt ibx (ttibx # rest) t =
     (if ID ttibx = ID ibx then tt else match_inbox tt ibx rest t)"

text \<open>The loop over \<open>inboxes.Inboxes\<close>, run in full for each ticket type.\<close>

fun match_inboxes ::
  "TicketType \<Rightarrow> 'a BaseEntity_scheme list \<Rightarrow> TicketType \<Rightarrow> TicketType" where
  "match_inboxes tt [] t = t"
| "match_inboxes tt (ibx # ibxs) t = match_inboxes tt ibxs (match_inbox tt ibx (Inboxes tt) t)"

text \<open>The loop over \<open>types.TicketTypes\<close>.\<close>

fun match_types ::
  "TicketType list \<Rightarrow> 'a BaseEntity_scheme list \<Rightarrow> TicketType \<Rightarrow> TicketType" where
  "match_types [] inboxes t = t"
| "match_types (tt # tts) inboxes t = match_types tts inboxes (match_inboxes tt inboxes t)"

definition lookup_ticket_type ::
  "TicketType list \<Rightarrow> 'a BaseEntity_scheme list \<Rightarrow> TicketType" where
  "lookup_ticket_type types inboxes = match_types types inboxes zero_TicketType"

text \<open>A ticket type is associated with an available inbox.\<close>

definition associated :: "'a BaseEntity_scheme list \<Rightarrow> TicketType \<Rightarrow> bool" where
  "associated inboxes tt =
     list_ex (\<lambda>ibx. list_ex (\<lambda>ttibx. ID ttibx = ID ibx) (Inboxes tt)) inboxes"

section \<open>JSON text\<close>

text \<open>
  Modelled from the spec: \<open>Build\<close>, which is not among the sources, gives
  canonical JSON text, and the spec compares what that text parses to. This
  section is the JSON both need. A document keeps the members of an object
  in a list, in the order in which they were added (the spec asks for a
  consistent order, not for a sorted one); a number is an integer.
\<close>

datatype json = JNull | JBool bool | JNum int | JStr string | JArr "json list"
  | JObj "(string \<times> json) list"

text \<open>
  The canonical text of a document: no white space, members in their order,
  strings in double quotes with the double quote and the backslash escaped
  by a backslash.
\<close>

definition escape :: "string \<Rightarrow> string" where
  "escape s = concat (map (\<lambda>c. if c = CHR 0x22 \<or> c = CHR 0x5C then [CHR 0x5C, c] else [c]) s)"

definition quote :: "string \<Rightarrow> string" where
  "quote s = CHR 0x22 # escape s @ [CHR 0x22]"

fun commas :: "string list \<Rightarrow> string" where
  "commas [] = []"
| "commas [x] = x"
| "commas (x # y # ys) = x @ '','' @ commas (y # ys)"

primrec Marshal_json :: "json \<Rightarrow> string" where
  "Marshal_json JNull = ''null''"
| "Marshal_json (JBool b) = (if b then ''true'' else ''false'')"
| "Marshal_json (JNum i) = Itoa i"
| "Marshal_json (JStr s) = quote s"
| "Marshal_json (JArr xs) = ''['' @ commas (map Marshal_json xs) @ '']''"
| "Marshal_json (JObj kvs) =
     ''{'' @ commas (map (\<lambda>kv. quote (fst kv) @ '':'' @ snd kv) (map (map_prod id Marshal_json) kvs)) @ ''}''"

text \<open>The members of an object between its braces.\<close>

definition Marshal_members :: "(string \<times> json) list \<Rightarrow> string" where
  "Marshal_members kvs =
     commas (map (\<lambda>kv. quote (fst kv) @ '':'' @ snd kv) (map (map_prod id Marshal_json) kvs))"

text \<open>
  Parsing such a text back into a document. The three mutually recursive
  parsers take the number of nested calls they may still make; \<open>Unmarshal\<close>
  gives them twice the length of the text, which \<open>need\<close> shows to be enough,
  and accepts a text that is one document and nothing more.
\<close>

definition is_digit :: "char \<Rightarrow> bool" where
  "is_digit c = (48 \<le> (of_char c :: nat) \<and> (of_char c :: nat) \<le> 57)"

definition digit_val :: "char \<Rightarrow> nat" where
  "digit_val c = of_char c - 48"

fun parse_digits :: "nat \<Rightarrow> string \<Rightarrow> nat \<times> string" where
  "parse_digits acc [] = (acc, [])"
| "parse_digits acc (c # r) =
     (if is_digit c then parse_digits (10 * acc + digit_val c) r else (acc, c # r))"

definition parse_number :: "string \<Rightarrow> (json \<times> string) option" where
  "parse_number s =
     (case s of
        [] \<Rightarrow> None
      | c # r \<Rightarrow>
          if c = CHR ''-'' then
            (if r \<noteq> [] \<and> is_digit (hd r) then
               (case parse_digits 0 r of (n, rest) \<Rightarrow> Some (JNum (- int n), rest))
             else None)
          else if is_digit c then
            (case parse_digits 0 s of (n, rest) \<Rightarrow> Some (JNum (int n), rest))
          else None)"

fun parse_string :: "string \<Rightarrow> (string \<times> string) option" where
  "parse_string [] = None"
| "parse_string (c # r) =
     (if c = CHR 0x22 then Some ([], r)
      else if c = CHR 0x5C then
        (case r of
           [] \<Rightarrow> None
         | e # r' \<Rightarrow>
             if e = CHR 0x22 \<or> e = CHR 0x5C then
               (case parse_string r' of None \<Rightarrow> None | Some (t, rest) \<Rightarrow> Some (e # t, rest))
             else None)
      else (case parse_string r of None \<Rightarrow> None | Some (t, rest) \<Rightarrow> Some (c # t, rest)))"

fun parse_value :: "nat \<Rightarrow> string \<Rightarrow> (json \<times> string) option"
  and parse_elems :: "nat \<Rightarrow> string \<Rightarrow> (json list \<times> string) option"
  and parse_members :: "nat \<Rightarrow> string \<Rightarrow> ((string \<times> json) list \<times> string) option" where
  "parse_value 0 s = None"
| "parse_value (Suc n) s =
     (case s of
        [] \<Rightarrow> None
      | c # r \<Rightarrow>
          if c = CHR ''n'' then (if take 3 r = ''ull'' then Some (JNull, drop 3 r) else None)
          else if c = CHR ''t'' then (if take 3 r = ''rue'' then Some (JBool True, drop 3 r) else None)
          else if c = CHR ''f'' then (if take 4 r = ''alse'' then Some (JBool False, drop 4 r) else None)
          else if c = CHR 0x22 then
            (case parse_string r of None \<Rightarrow> None | Some (t, rest) \<Rightarrow> Some (JStr t, rest))
          else if c = CHR ''['' then
            (if r \<noteq> [] \<and> hd r = CHR '']'' then Some (JArr [], tl r)
             else (case parse_elems n r of None \<Rightarrow> None | Some (vs, rest) \<Rightarrow> Some (JArr vs, rest)))
          else if c = CHR ''{'' then
            (if r \<noteq> [] \<and> hd r = CHR ''}'' then Some (JObj [], tl r)
             else (case parse_members n r of None \<Rightarrow> None | Some (kvs, rest) \<Rightarrow> Some (JObj kvs, rest)))
          else parse_number s)"
| "parse_elems 0 s = None"
| "parse_elems (Suc n) s =
     (case parse_value n s of
        None \<Rightarrow> None
      | Some (v, r) \<Rightarrow>
          (case r of
             [] \<Rightarrow> None
           | c # rest \<Rightarrow>
               if c = CHR '','' then
                 (case parse_elems n rest of None \<Rightarrow> None | Some (vs, rest') \<Rightarrow> Some (v # vs, rest'))
               else if c = CHR '']'' then Some ([v], rest)
               else None))"
| "parse_members 0 s = None"
| "parse_members (Suc n) s =
     (case s of
        [] \<Rightarrow> None
      | q # r \<Rightarrow>
          if q \<noteq> CHR 0x22 then None
          else
            (case parse_string r of
               None \<Rightarrow> None
             | Some (k, r1) \<Rightarrow>
                 (case r1 of
                    [] \<Rightarrow> None
                  | col # r2 \<Rightarrow>
                      if col \<noteq> CHR '':'' then None
                      else
                        (case parse_value n r2 of
                           None \<Rightarrow> None
                         | Some (v, r3) \<Rightarrow>
                             (case r3 of
                                [] \<Rightarrow> None
                              | c # rest \<Rightarrow>
                                  if c = CHR '','' then
                                    (case parse_members n rest of
                                       None \<Rightarrow> None
                                     | Some (kvs, rest') \<Rightarrow> Some ((k, v) # kvs, rest'))
                                  else if c = CHR ''}'' then Some ([(k, v)], rest)
                                  else None)))))"

definition Unmarshal :: "string \<Rightarrow> json option" where
  "Unmarshal s =
     (case parse_value (2 * length s) s of
        None \<Rightarrow> None
      | Some (v, rest) \<Rightarrow> if rest = [] then Some v else None)"

primrec need :: "json \<Rightarrow> nat" where
  "need JNull = 1"
| "need (JBool b) = 1"
| "need (JNum i) = 1"
| "need (JStr s) = 1"
| "need (JArr xs) = Suc (sum_list (map need xs) + length xs)"
| "need (JObj kvs) = Suc (sum_list (map snd (map (map_prod id need) kvs)) + length kvs)"

section \<open>Filter builder\<close>

text \<open>
  Modelled from the spec: the file that declares \<open>FilterOperator\<close>,
  \<open>FilterBuilder\<close>, \<open>NewFilter\<close>, the operator methods and \<open>Build\<close> is not among
  the sources; its tests are. The operator strings are those the tests
  compare the constants with.
\<close>

datatype FilterOperator = OpEq | OpNe | OpLt | OpLte | OpGt | OpGte | OpIn | OpNin | OpAnd | OpOr

fun operator_string :: "FilterOperator \<Rightarrow> string" where
  "operator_string OpEq = ''$eq''"
| "operator_string OpNe = ''$ne''"
| "operator_string OpLt = ''$lt''"
| "operator_string OpLte = ''$lte''"
| "operator_string OpGt = ''$gt''"
| "operator_string OpGte = ''$gte''"
| "operator_string OpIn = ''$in''"
| "operator_string OpNin = ''$nin''"
| "operator_string OpAnd = ''$and''"
| "operator_string OpOr = ''$or''"

text \<open>
  Modelled from the spec: a builder holds the filter document, a map from a
  field (or \<open>$and\<close>, \<open>$or\<close>) to what stands under it; a new builder holds
  the empty one. \<open>filter_doc\<close> is the field \<open>filter\<close> of the tests. A builder is
  a value here: a sub-filter is what it was when it was combined.
\<close>

record FilterBuilder =
  filter_doc :: "(string \<times> json) list"

definition NewFilter :: FilterBuilder where
  "NewFilter = \<lparr>filter_doc = []\<rparr>"

text \<open>
  Modelled from the spec: setting a key of a map, which overwrites the value
  of a key that is there and adds the key otherwise.
\<close>

fun assign :: "string \<Rightarrow> json \<Rightarrow> (string \<times> json) list \<Rightarrow> (string \<times> json) list" where
  "assign k v [] = [(k, v)]"
| "assign k v ((k', v') # kvs) = (if k' = k then (k, v) # kvs else (k', v') # assign k v kvs)"

text \<open>
  Modelled from the spec: a comparison sets or overwrites its operator key
  under the field, next to the operator keys already there.
\<close>

definition operators_under :: "string \<Rightarrow> (string \<times> json) list \<Rightarrow> (string \<times> json) list" where
  "operators_under field kvs = (case map_of kvs field of Some (JObj ops) \<Rightarrow> ops | _ \<Rightarrow> [])"

definition addCondition :: "string \<Rightarrow> FilterOperator \<Rightarrow> json \<Rightarrow> FilterBuilder \<Rightarrow> FilterBuilder" where
  "addCondition field op v f =
     f\<lparr>filter_doc := assign field (JObj (assign (operator_string op) v (operators_under field (filter_doc f))))
                   (filter_doc f)\<rparr>"

definition Eq :: "string \<Rightarrow> json \<Rightarrow> FilterBuilder \<Rightarrow> FilterBuilder" where
  "Eq field v = addCondition field OpEq v"

definition Ne :: "string \<Rightarrow> json \<Rightarrow> FilterBuilder \<Rightarrow> FilterBuilder" where
  "Ne field v = addCondition field OpNe v"

definition Lt :: "string \<Rightarrow> json \<Rightarrow> FilterBuilder \<Rightarrow> FilterBuilder" where
  "Lt field v = addCondition field OpLt v"

definition Lte :: "string \<Rightarrow> json \<Rightarrow> FilterBuilder \<Rightarrow> FilterBuilder" where
  "Lte field v = addCondition field OpLte v"

definition Gt :: "string \<Rightarrow> json \<Rightarrow> FilterBuilder \<Rightarrow> FilterBuilder" where
  "Gt field v = addCondition field OpGt v"

definition Gte :: "string \<Rightarrow> json \<Rightarrow> FilterBuilder \<Rightarrow> FilterBuilder" where
  "Gte field v = addCondition field OpGte v"

definition In :: "string \<Rightarrow> json list \<Rightarrow> FilterBuilder \<Rightarrow> FilterBuilder" where
  "In field vs = addCondition field OpIn (JArr vs)"

definition Nin :: "string \<Rightarrow> json list \<Rightarrow> FilterBuilder \<Rightarrow> FilterBuilder" where
  "Nin field vs = addCondition field OpNin (JArr vs)"

text \<open>
  Modelled from the spec: \<open>And\<close> and \<open>Or\<close> set the key \<open>$and\<close> or \<open>$or\<close> to the
  array of the documents of the sub-filters, in the order of the arguments.
\<close>

definition combine :: "FilterOperator \<Rightarrow> FilterBuilder list \<Rightarrow> FilterBuilder \<Rightarrow> FilterBuilder" where
  "combine op fs f =
     f\<lparr>filter_doc := assign (operator_string op) (JArr (map (\<lambda>g. JObj (filter_doc g)) fs)) (filter_doc f)\<rparr>"

definition And :: "FilterBuilder list \<Rightarrow> FilterBuilder \<Rightarrow> FilterBuilder" where
  "And fs = combine OpAnd fs"

definition Or :: "FilterBuilder list \<Rightarrow> FilterBuilder \<Rightarrow> FilterBuilder" where
  "Or fs = combine OpOr fs"

text \<open>
  Modelled from the spec: \<open>Build\<close> serialises the document to canonical JSON
  text; the empty filter gives \<open>{}\<close>.
\<close>

definition Build :: "FilterBuilder \<Rightarrow> string" where
  "Build f = Marshal_json (JObj (filter_doc f))"

section \<open>The middleware chain\<close>

lemma wrap_handlers_foldr:
  "i \<le> length mws \<Longrightarrow>
   wrap_handlers mws i handler =
     foldr (\<lambda>m next ctx req. m ctx req next) (take i mws) handler"
proof (induction i arbitrary: handler)
  case 0
  show ?case by simp
next
  case (Suc i)
  then have lt: "i < length mws" by simp
  have "wrap_handlers mws (Suc i) handler =
        foldr (\<lambda>m next ctx req. m ctx req next) (take i mws)
          (\<lambda>ctx req. (mws ! i) ctx req handler)"
    using Suc.IH [of "\<lambda>ctx req. (mws ! i) ctx req handler"] lt by simp
  also have "\<dots> = foldr (\<lambda>m next ctx req. m ctx req next) (take i mws @ [mws ! i]) handler"
    by simp
  finally show ?case using lt by (simp add: take_Suc_conv_app_nth)
qed

lemma middleware_fold_WithMiddleware:
  "middleware (fold (\<lambda>opt client. opt client) (map (\<lambda>l. WithMiddleware (f l)) ls) c) =
     middleware c @ map f ls"
  by (induction ls arbitrary: c) (simp_all add: WithMiddleware_def)

lemma httpClient_fold_WithMiddleware:
  "httpClient (fold (\<lambda>opt client. opt client) (map (\<lambda>l. WithMiddleware (f l)) ls) c) =
     httpClient c"
  by (induction ls arbitrary: c) (simp_all add: WithMiddleware_def)

lemma probe_next:
  "next ctx req (tr @ [Entered l]) = (r, tr') \<Longrightarrow> probe l ctx req next tr = (r, tr' @ [Exited l])"
  by (simp add: probe_def)

lemma probe_chain:
  assumes fin: "\<And>ctx req tr. fin ctx req tr = (r, tr @ [Sent])"
  shows "foldr (\<lambda>m next ctx req. m ctx req next) (map probe ls) fin ctx req tr =
     (r, tr @ map Entered ls @ [Sent] @ map Exited (rev ls))"
proof (induction ls arbitrary: tr)
  case Nil
  show ?case by (simp add: fin)
next
  case (Cons l ls)
  have "foldr (\<lambda>m next ctx req. m ctx req next) (map probe ls) fin ctx req (tr @ [Entered l]) =
        (r, (tr @ [Entered l]) @ map Entered ls @ [Sent] @ map Exited (rev ls))"
    by (rule Cons.IH)
  then have "probe l ctx req (foldr (\<lambda>m next ctx req. m ctx req next) (map probe ls) fin) tr =
        (r, ((tr @ [Entered l]) @ map Entered ls @ [Sent] @ map Exited (rev ls)) @ [Exited l])"
    by (rule probe_next)
  then show ?case by simp
qed

text \<open>
  C1. Middleware registered in the order \<open>M1, ..., Mn\<close> with \<open>WithMiddleware\<close> runs,
  on every request, as \<open>M1\<close> in, \<open>M2\<close> in, ..., \<open>Mn\<close> in, the terminal send,
  \<open>Mn\<close> out, ..., \<open>M1\<close> out: entries in declaration order, exits in strict reverse
  order, whatever the request, the context and the transport's answer.
\<close>

theorem doRequest_order:
  fixes ctx :: 'c and ls :: "'l list"
  shows "doRequest (NewClient (wire r) base (map (\<lambda>l. WithMiddleware (probe l)) ls)) ctx req tr =
     (r, tr @ map Entered ls @ [Sent] @ map Exited (rev ls))"
proof -
  let ?c = "NewClient (wire r) base (map (\<lambda>l. WithMiddleware (probe l)) ls)"
  let ?fin = "\<lambda>(ctx::'c) req. httpClient ?c req"
  have mw: "middleware ?c = map probe ls"
    unfolding NewClient_def by (simp add: middleware_fold_WithMiddleware)
  have hc: "httpClient ?c = wire r"
    unfolding NewClient_def by (simp add: httpClient_fold_WithMiddleware)
  have fin: "\<And>ctx req tr. ?fin ctx req tr = (r, tr @ [Sent])"
    by (simp add: hc wire_def)
  have eq: "wrap_handlers (middleware ?c) (length (middleware ?c)) ?fin =
        foldr (\<lambda>m next ctx req. m ctx req next) (map probe ls) ?fin"
    unfolding mw using wrap_handlers_foldr [of "length (map probe ls)" "map probe ls" ?fin]
    by simp
  have key: "wrap_handlers (middleware ?c) (length (middleware ?c)) ?fin ctx req' tr =
        (r, tr @ map Entered ls @ [Sent] @ map Exited (rev ls))" for req'
    unfolding eq by (rule probe_chain [of ?fin r, OF fin])
  show ?thesis
    unfolding doRequest_def Let_def by (rule key)
qed

theorem doRequest_order_witness:
  "doRequest
     (NewClient (wire (Some \<lparr>StatusCode = 200, Body = (''{}'', None)\<rparr>, None)) ''https://h/desk/api/v2''
        (map (\<lambda>l. WithMiddleware (probe l)) [1::nat, 2, 3]))
     () \<lparr>Method = ''GET'', URL = ''https://h/desk/api/v2/tickets/1.json'', Header = Map.empty,
         Payload = None, Ctx = ()\<rparr> [] =
   ((Some \<lparr>StatusCode = 200, Body = (''{}'', None)\<rparr>, None),
    [Entered 1, Entered 2, Entered 3, Sent, Exited 3, Exited 2, Exited 1])"
  using doRequest_order [of "(Some \<lparr>StatusCode = 200, Body = (''{}'', None)\<rparr>, None)"
      "''https://h/desk/api/v2''" "[1::nat, 2, 3]" "()"
      "\<lparr>Method = ''GET'', URL = ''https://h/desk/api/v2/tickets/1.json'', Header = Map.empty,
        Payload = None, Ctx = ()\<rparr>" "[]"]
  by simp

section \<open>The retry loop\<close>

declare retry_loop.simps [simp del]

lemma invocations_append: "invocations (xs @ ys) = invocations xs @ invocations ys"
  by (induction xs rule: invocations.induct) simp_all

lemma observed_apply:
  "next ctx req w = (r, w') \<Longrightarrow> observed next ctx req (evs, w) = (r, (evs @ [Invoked r], w'))"
  by (simp add: observed_def)

lemma observed_select_apply:
  "sel d ctx w = (x, w') \<Longrightarrow> observed_select sel d ctx (evs, w) = (x, (evs @ [Waited x], w'))"
  by (simp add: observed_select_def)

lemma retry_loop_exit:
  "\<not> attempt \<le> maxRetries \<Longrightarrow>
   retry_loop sel maxRetries retryDelay ctx req next attempt res w = (res, w)"
  by (subst retry_loop.simps) simp

lemma retry_loop_return:
  assumes "attempt \<le> maxRetries"
    and "next ctx (Clone ctx req) w = ((resp, err), w1)"
    and "err = None \<or> attempt = maxRetries"
  shows "retry_loop sel maxRetries retryDelay ctx req next attempt res w = ((resp, err), w1)"
  using assms by (subst retry_loop.simps) (simp add: Let_def)

lemma retry_loop_again:
  assumes "attempt < maxRetries"
    and "next ctx (Clone ctx req) w = ((resp, Some e), w1)"
    and "sel retryDelay ctx w1 = (TimerFired, w2)"
  shows "retry_loop sel maxRetries retryDelay ctx req next attempt res w =
         retry_loop sel maxRetries retryDelay ctx req next (attempt + 1) (resp, Some e) w2"
  using assms by (subst retry_loop.simps) (simp add: Let_def)

lemma retry_loop_cancel:
  assumes "attempt < maxRetries"
    and "next ctx (Clone ctx req) w = ((resp, Some e), w1)"
    and "sel retryDelay ctx w1 = (CtxDone ce, w2)"
  shows "retry_loop sel maxRetries retryDelay ctx req next attempt res w = ((None, Some ce), w2)"
  using assms by (subst retry_loop.simps) (simp add: Let_def)

text \<open>One iteration of the observed loop, by cases.\<close>

lemma observed_loop_cases:
  assumes le: "attempt \<le> maxRetries"
  obtains
    (return) resp err w1 where
      "next ctx (Clone ctx req) w = ((resp, err), w1)"
      "err = None \<or> attempt = maxRetries"
      "retry_loop (observed_select sel) maxRetries retryDelay ctx req (observed next) attempt res (evs, w) =
         ((resp, err), (evs @ [Invoked (resp, err)], w1))"
  | (again) resp e w1 w2 where
      "attempt < maxRetries"
      "next ctx (Clone ctx req) w = ((resp, Some e), w1)"
      "sel retryDelay ctx w1 = (TimerFired, w2)"
      "retry_loop (observed_select sel) maxRetries retryDelay ctx req (observed next) attempt res (evs, w) =
         retry_loop (observed_select sel) maxRetries retryDelay ctx req (observed next) (attempt + 1)
           (resp, Some e) (evs @ [Invoked (resp, Some e), Waited TimerFired], w2)"
  | (cancel) resp e w1 ce w2 where
      "attempt < maxRetries"
      "next ctx (Clone ctx req) w = ((resp, Some e), w1)"
      "sel retryDelay ctx w1 = (CtxDone ce, w2)"
      "retry_loop (observed_select sel) maxRetries retryDelay ctx req (observed next) attempt res (evs, w) =
         ((None, Some ce), (evs @ [Invoked (resp, Some e), Waited (CtxDone ce)], w2))"
proof -
  obtain resp err w1 where nx: "next ctx (Clone ctx req) w = ((resp, err), w1)"
    by (metis prod.exhaust)
  have onx: "observed next ctx (Clone ctx req) (evs, w) =
        ((resp, err), (evs @ [Invoked (resp, err)], w1))"
    using nx by (simp add: observed_def)
  show thesis
  proof (cases "err = None \<or> attempt = maxRetries")
    case True
    have "retry_loop (observed_select sel) maxRetries retryDelay ctx req (observed next) attempt res (evs, w) =
         ((resp, err), (evs @ [Invoked (resp, err)], w1))"
      using le onx True by (rule retry_loop_return)
    with nx True show thesis by (rule return)
  next
    case False
    then obtain e where e: "err = Some e" and lt: "attempt < maxRetries"
      using le by auto
    obtain x w2 where sl: "sel retryDelay ctx w1 = (x, w2)"
      by (metis prod.exhaust)
    have osl: "observed_select sel retryDelay ctx (evs @ [Invoked (resp, Some e)], w1) =
        (x, (evs @ [Invoked (resp, Some e), Waited x], w2))"
      using sl by (simp add: observed_select_def)
    show thesis
    proof (cases x)
      case TimerFired
      have "retry_loop (observed_select sel) maxRetries retryDelay ctx req (observed next) attempt res (evs, w) =
         retry_loop (observed_select sel) maxRetries retryDelay ctx req (observed next) (attempt + 1)
           (resp, Some e) (evs @ [Invoked (resp, Some e), Waited TimerFired], w2)"
        using lt onx [unfolded e] osl [unfolded TimerFired] by (rule retry_loop_again)
      with lt nx [unfolded e] sl [unfolded TimerFired] show thesis by (rule again)
    next
      case (CtxDone ce)
      have "retry_loop (observed_select sel) maxRetries retryDelay ctx req (observed next) attempt res (evs, w) =
         ((None, Some ce), (evs @ [Invoked (resp, Some e), Waited (CtxDone ce)], w2))"
        using lt onx [unfolded e] osl [unfolded CtxDone] by (rule retry_loop_cancel)
      with lt nx [unfolded e] sl [unfolded CtxDone] show thesis by (rule cancel)
    qed
  qed
qed


lemma retry_loop_all_fail:
  assumes fail: "\<And>ctx req w. snd (fst (next ctx req w)) \<noteq> None"
    and live: "\<And>d ctx w. fst (sel d ctx w) = TimerFired"
  shows "attempt \<le> maxRetries \<Longrightarrow>
     retry_loop (observed_select sel) maxRetries retryDelay ctx req (observed next) attempt res (evs, w) =
       (res', (evs', w')) \<Longrightarrow>
     \<exists>new. evs' = evs @ new \<and> length (invocations new) = nat (maxRetries - attempt) + 1 \<and>
           res' = last (invocations new) \<and> snd res' \<noteq> None"
proof (induction "nat (maxRetries - attempt)" arbitrary: attempt res evs w)
  case 0
  then have eq: "attempt = maxRetries" by simp
  from "0.prems"(1) show ?case
  proof (cases rule: observed_loop_cases [of attempt maxRetries "next" ctx req w sel retryDelay res evs])
    case (return resp err w1)
    with "0.prems"(2) have "evs' = evs @ [Invoked (resp, err)]" "res' = (resp, err)" by auto
    moreover have "snd (fst (next ctx (Clone ctx req) w)) \<noteq> None" by (rule fail)
    ultimately show ?thesis using eq return(1) by simp
  next
    case (again resp e w1 w2)
    then show ?thesis using eq by simp
  next
    case (cancel resp e w1 ce w2)
    then show ?thesis using eq by simp
  qed
next
  case (Suc n)
  then have lt: "attempt < maxRetries" by simp
  from Suc.prems(1) show ?case
  proof (cases rule: observed_loop_cases [of attempt maxRetries "next" ctx req w sel retryDelay res evs])
    case (return resp err w1)
    have "snd (fst (next ctx (Clone ctx req) w)) \<noteq> None" by (rule fail)
    with return(1,2) lt show ?thesis by simp
  next
    case (again resp e w1 w2)
    have n: "n = nat (maxRetries - (attempt + 1))" using Suc.hyps(2) by simp
    have le: "attempt + 1 \<le> maxRetries" using lt by simp
    have run: "retry_loop (observed_select sel) maxRetries retryDelay ctx req (observed next) (attempt + 1)
           (resp, Some e) (evs @ [Invoked (resp, Some e), Waited TimerFired], w2) = (res', (evs', w'))"
      using again(4) Suc.prems(2) by simp
    from Suc.hyps(1) [OF n le run] obtain new where
      new: "evs' = (evs @ [Invoked (resp, Some e), Waited TimerFired]) @ new"
        "length (invocations new) = nat (maxRetries - (attempt + 1)) + 1"
        "res' = last (invocations new)" "snd res' \<noteq> None" by blast
    have ne: "invocations new \<noteq> []" using new(2) by auto
    let ?new = "[Invoked (resp, Some e), Waited TimerFired] @ new"
    have "evs' = evs @ ?new" using new(1) by simp
    moreover have "length (invocations ?new) = nat (maxRetries - attempt) + 1"
      using new(2) lt by (simp add: invocations_append)
    moreover have "res' = last (invocations ?new)"
      using new(3) ne by (simp add: invocations_append)
    ultimately show ?thesis using new(4) by blast
  next
    case (cancel resp e w1 ce w2)
    have "fst (sel retryDelay ctx w1) = TimerFired" by (rule live)
    with cancel(3) show ?thesis by simp
  qed
qed

lemma retry_loop_nil_error_last:
  "retry_loop (observed_select sel) maxRetries retryDelay ctx req (observed next) attempt res (evs, w) =
       (res', (evs', w')) \<Longrightarrow>
   \<exists>new. evs' = evs @ new \<and>
     (\<forall>i < length (invocations new). snd (invocations new ! i) = None \<longrightarrow>
        Suc i = length (invocations new) \<and> res' = invocations new ! i)"
proof (induction "nat (maxRetries + 1 - attempt)" arbitrary: attempt res evs w)
  case 0
  then have "\<not> attempt \<le> maxRetries" by simp
  then have "retry_loop (observed_select sel) maxRetries retryDelay ctx req (observed next) attempt res (evs, w) =
      (res, (evs, w))" by (rule retry_loop_exit)
  with "0.prems" have "evs' = evs @ []" by simp
  then show ?case by (metis invocations.simps(1) list.size(3) not_less_zero)
next
  case (Suc n)
  then have le: "attempt \<le> maxRetries" by simp
  from le show ?case
  proof (cases rule: observed_loop_cases [of attempt maxRetries "next" ctx req w sel retryDelay res evs])
    case (return resp err w1)
    with Suc.prems have "evs' = evs @ [Invoked (resp, err)]" "res' = (resp, err)" by auto
    then show ?thesis by simp
  next
    case (again resp e w1 w2)
    have n: "n = nat (maxRetries + 1 - (attempt + 1))" using Suc.hyps(2) by simp
    have run: "retry_loop (observed_select sel) maxRetries retryDelay ctx req (observed next) (attempt + 1)
           (resp, Some e) (evs @ [Invoked (resp, Some e), Waited TimerFired], w2) = (res', (evs', w'))"
      using again(4) Suc.prems by simp
    from Suc.hyps(1) [OF n run] obtain new where
      new: "evs' = (evs @ [Invoked (resp, Some e), Waited TimerFired]) @ new"
        "\<forall>i < length (invocations new). snd (invocations new ! i) = None \<longrightarrow>
           Suc i = length (invocations new) \<and> res' = invocations new ! i" by blast
    let ?new = "[Invoked (resp, Some e), Waited TimerFired] @ new"
    have "evs' = evs @ ?new" using new(1) by simp
    moreover have "\<forall>i < length (invocations ?new). snd (invocations ?new ! i) = None \<longrightarrow>
           Suc i = length (invocations ?new) \<and> res' = invocations ?new ! i"
      using new(2) by (auto simp: nth_Cons split: nat.splits)
    ultimately show ?thesis by blast
  next
    case (cancel resp e w1 ce w2)
    with Suc.prems have "evs' = evs @ [Invoked (resp, Some e), Waited (CtxDone ce)]" by auto
    then show ?thesis by simp
  qed
qed

lemma retry_loop_cancelled_wait_last:
  "retry_loop (observed_select sel) maxRetries retryDelay ctx req (observed next) attempt res (evs, w) =
       (res', (evs', w')) \<Longrightarrow>
   \<exists>new. evs' = evs @ new \<and>
     (\<forall>i < length new. \<forall>ce. new ! i = Waited (CtxDone ce) \<longrightarrow>
        Suc i = length new \<and> res' = (None, Some ce))"
proof (induction "nat (maxRetries + 1 - attempt)" arbitrary: attempt res evs w)
  case 0
  then have "\<not> attempt \<le> maxRetries" by simp
  then have "retry_loop (observed_select sel) maxRetries retryDelay ctx req (observed next) attempt res (evs, w) =
      (res, (evs, w))" by (rule retry_loop_exit)
  with "0.prems" have "evs' = evs @ []" by simp
  then show ?case by (metis list.size(3) not_less_zero)
next
  case (Suc n)
  then have le: "attempt \<le> maxRetries" by simp
  from le show ?case
  proof (cases rule: observed_loop_cases [of attempt maxRetries "next" ctx req w sel retryDelay res evs])
    case (return resp err w1)
    with Suc.prems have "evs' = evs @ [Invoked (resp, err)]" by auto
    then show ?thesis by simp
  next
    case (again resp e w1 w2)
    have n: "n = nat (maxRetries + 1 - (attempt + 1))" using Suc.hyps(2) by simp
    have run: "retry_loop (observed_select sel) maxRetries retryDelay ctx req (observed next) (attempt + 1)
           (resp, Some e) (evs @ [Invoked (resp, Some e), Waited TimerFired], w2) = (res', (evs', w'))"
      using again(4) Suc.prems by simp
    from Suc.hyps(1) [OF n run] obtain new where
      new: "evs' = (evs @ [Invoked (resp, Some e), Waited TimerFired]) @ new"
        "\<forall>i < length new. \<forall>ce. new ! i = Waited (CtxDone ce) \<longrightarrow>
           Suc i = length new \<and> res' = (None, Some ce)" by blast
    let ?new = "[Invoked (resp, Some e), Waited TimerFired] @ new"
    have "evs' = evs @ ?new" using new(1) by simp
    moreover have "\<forall>i < length ?new. \<forall>ce. ?new ! i = Waited (CtxDone ce) \<longrightarrow>
           Suc i = length ?new \<and> res' = (None, Some ce)"
      using new(2) by (auto simp: nth_Cons split: nat.splits)
    ultimately show ?thesis by blast
  next
    case (cancel resp e w1 ce w2)
    with Suc.prems have "evs' = evs @ [Invoked (resp, Some e), Waited (CtxDone ce)]"
      "res' = (None, Some ce)" by auto
    then show ?thesis by (auto simp: nth_Cons split: nat.splits)
  qed
qed

text \<open>
  C2, as stated, fails when the context is cancelled during a wait: with
  \<open>maxRetries = 3\<close> and a handler that fails on every invocation, a first wait
  that ends on \<open>ctx.Done()\<close> makes \<open>RetryMiddleware\<close> return the context's error
  after one invocation, not the handler's error after four.
\<close>

theorem RetryMiddleware_always_failing_counterexample:
  "RetryMiddleware (observed_select cancelled_wait) 3 1000 ()
     \<lparr>Method = ''GET'', URL = ''u'', Header = Map.empty, Payload = None, Ctx = ()\<rparr>
     (observed refusing) ([], 0) =
   ((None, Some Canceled),
    [Invoked (None, Some (ErrorString ''connection refused'')), Waited (CtxDone Canceled)], 1) \<and>
   length (invocations
     [Invoked (None, Some (ErrorString ''connection refused'')), Waited (CtxDone Canceled)]) = 1 \<and>
   (None, Some Canceled) \<noteq>
     last (invocations
       [Invoked (None, Some (ErrorString ''connection refused'')), Waited (CtxDone Canceled)])"
  by (simp add: RetryMiddleware_def retry_loop.simps observed_def observed_select_def Clone_def
      refusing_def cancelled_wait_def)

text \<open>
  C2, amended. For \<open>maxRetries = k \<ge> 0\<close> and a handler that fails on every
  invocation, provided no wait between attempts ends because the context is
  done, \<open>RetryMiddleware(k, d)\<close> invokes the handler exactly \<open>k + 1\<close> times and
  returns what the final invocation returned, its error included.
\<close>

theorem RetryMiddleware_always_failing:
  assumes k: "0 \<le> k"
    and fail: "\<And>ctx req w. snd (fst (next ctx req w)) \<noteq> None"
    and live: "\<And>d ctx w. fst (sel d ctx w) = TimerFired"
  shows "case RetryMiddleware (observed_select sel) k d ctx req (observed next) ([], w) of
           (res, evs, w') \<Rightarrow>
             length (invocations evs) = nat k + 1 \<and> res = last (invocations evs) \<and>
             snd res \<noteq> None"
proof -
  obtain res evs w' where
    run: "retry_loop (observed_select sel) k d ctx req (observed next) 0 (None, None) ([], w) =
            (res, (evs, w'))"
    by (metis prod.exhaust)
  from retry_loop_all_fail [of "next" sel 0 k d ctx req "(None, None)" "[]" w res evs w',
      OF fail live k run]
  have "length (invocations evs) = nat k + 1 \<and> res = last (invocations evs) \<and> snd res \<noteq> None"
    by auto
  then show ?thesis
    unfolding RetryMiddleware_def run prod.case .
qed

theorem RetryMiddleware_always_failing_witness:
  "case RetryMiddleware (observed_select (\<lambda>d ctx w. (TimerFired, w))) 2 1000 ()
          \<lparr>Method = ''GET'', URL = ''u'', Header = Map.empty, Payload = None, Ctx = ()\<rparr>
          (observed (\<lambda>ctx req w. ((None, Some (if w = 2 then DeadlineExceeded
                                                 else ErrorString ''connection refused'')), Suc w)))
          ([], 0::nat) of
     (res, evs, w') \<Rightarrow>
       length (invocations evs) = 3 \<and> res = last (invocations evs) \<and> snd res \<noteq> None"
  using RetryMiddleware_always_failing [of 2
      "\<lambda>ctx req w. ((None, Some (if w = 2 then DeadlineExceeded
                                   else ErrorString ''connection refused'')), Suc w)"
      "\<lambda>d ctx w. (TimerFired, w)" 1000 "()"
      "\<lparr>Method = ''GET'', URL = ''u'', Header = Map.empty, Payload = None, Ctx = ()\<rparr>" "0::nat"]
  by simp

text \<open>
  C9. \<open>RetryMiddleware\<close> re-attempts only after an invocation that returned a
  non-nil error: an invocation that returns a nil error, whatever the status
  code of its response, is the last one of the run, and what it returned is
  what the middleware returns.
\<close>

theorem RetryMiddleware_stops_on_nil_error:
  "case RetryMiddleware (observed_select sel) maxRetries d ctx req (observed next) ([], w) of
     (res, evs, w') \<Rightarrow>
       \<forall>i < length (invocations evs). snd (invocations evs ! i) = None \<longrightarrow>
         Suc i = length (invocations evs) \<and> res = invocations evs ! i"
proof -
  obtain res evs w' where
    run: "retry_loop (observed_select sel) maxRetries d ctx req (observed next) 0 (None, None) ([], w) =
            (res, (evs, w'))"
    by (metis prod.exhaust)
  from retry_loop_nil_error_last [OF run]
  have "\<forall>i < length (invocations evs). snd (invocations evs ! i) = None \<longrightarrow>
         Suc i = length (invocations evs) \<and> res = invocations evs ! i"
    by simp
  then show ?thesis
    unfolding RetryMiddleware_def run prod.case .
qed

theorem RetryMiddleware_stops_on_nil_error_witness:
  "case RetryMiddleware (observed_select (\<lambda>d ctx w. (TimerFired, w))) 3 1000 ()
          \<lparr>Method = ''GET'', URL = ''u'', Header = Map.empty, Payload = None, Ctx = ()\<rparr>
          (observed (\<lambda>ctx req w.
             (if w = 0 then (None, Some (ErrorString ''connection reset''))
              else (Some \<lparr>StatusCode = 503, Body = (''busy'', None)\<rparr>, None), Suc w)))
          ([], 0::nat) of
     (res, evs, w') \<Rightarrow>
       1 < length (invocations evs) \<and> snd (invocations evs ! 1) = None \<and>
       Suc 1 = length (invocations evs) \<and> res = invocations evs ! 1 \<and>
       res = (Some \<lparr>StatusCode = 503, Body = (''busy'', None)\<rparr>, None)"
  using RetryMiddleware_stops_on_nil_error [of "\<lambda>d ctx w. (TimerFired, w)" 3 1000 "()"
      "\<lparr>Method = ''GET'', URL = ''u'', Header = Map.empty, Payload = None, Ctx = ()\<rparr>"
      "\<lambda>ctx req w.
             (if w = 0 then (None, Some (ErrorString ''connection reset''))
              else (Some \<lparr>StatusCode = 503, Body = (''busy'', None)\<rparr>, None), Suc w)"
      "0::nat"]
  by (simp add: RetryMiddleware_def retry_loop.simps observed_def observed_select_def Clone_def)

text \<open>
  C7. When the wait between two attempts ends because the context is done,
  \<open>RetryMiddleware\<close> returns no response and the context's error, and that wait
  is the last thing the run does: the delay is not waited out and the handler
  is not invoked again.
\<close>

theorem RetryMiddleware_cancelled_wait:
  "case RetryMiddleware (observed_select sel) maxRetries d ctx req (observed next) ([], w) of
     (res, evs, w') \<Rightarrow>
       \<forall>i < length evs. \<forall>ce. evs ! i = Waited (CtxDone ce) \<longrightarrow>
         Suc i = length evs \<and> res = (None, Some ce)"
proof -
  obtain res evs w' where
    run: "retry_loop (observed_select sel) maxRetries d ctx req (observed next) 0 (None, None) ([], w) =
            (res, (evs, w'))"
    by (metis prod.exhaust)
  from retry_loop_cancelled_wait_last [OF run]
  have "\<forall>i < length evs. \<forall>ce. evs ! i = Waited (CtxDone ce) \<longrightarrow>
         Suc i = length evs \<and> res = (None, Some ce)"
    by simp
  then show ?thesis
    unfolding RetryMiddleware_def run prod.case .
qed

theorem RetryMiddleware_cancelled_wait_witness:
  "case RetryMiddleware (observed_select (\<lambda>d ctx w. (CtxDone Canceled, w))) 3 1000 ()
          \<lparr>Method = ''GET'', URL = ''u'', Header = Map.empty, Payload = None, Ctx = ()\<rparr>
          (observed (\<lambda>ctx req w. ((None, Some (ErrorString ''connection reset'')), Suc w)))
          ([], 0::nat) of
     (res, evs, w') \<Rightarrow>
       1 < length evs \<and> evs ! 1 = Waited (CtxDone Canceled) \<and>
       Suc 1 = length evs \<and> res = (None, Some Canceled) \<and>
       invocations evs = [(None, Some (ErrorString ''connection reset''))]"
  using RetryMiddleware_cancelled_wait [of "\<lambda>d ctx w. (CtxDone Canceled, w)" 3 1000 "()"
      "\<lparr>Method = ''GET'', URL = ''u'', Header = Map.empty, Payload = None, Ctx = ()\<rparr>"
      "\<lambda>ctx req w. ((None, Some (ErrorString ''connection reset'')), Suc w)"
      "0::nat"]
  by (simp add: RetryMiddleware_def retry_loop.simps observed_def observed_select_def Clone_def)

section \<open>The ticket-type lookup\<close>

lemma match_inbox_result:
  "match_inbox tt ibx refs t = (if list_ex (\<lambda>ttibx. ID ttibx = ID ibx) refs then tt else t)"
  by (induction refs) simp_all

lemma match_inboxes_result:
  "match_inboxes tt inboxes t = (if associated inboxes tt then tt else t)"
proof (induction inboxes arbitrary: t)
  case Nil
  show ?case by (simp add: associated_def)
next
  case (Cons ibx ibxs)
  show ?case
    by (simp add: Cons.IH match_inbox_result associated_def)
qed

lemma match_types_result:
  "match_types types inboxes t =
     (if filter (associated inboxes) types = [] then t
      else last (filter (associated inboxes) types))"
proof (induction types arbitrary: t)
  case Nil
  show ?case by simp
next
  case (Cons tt tts)
  show ?case
    by (simp add: Cons.IH match_inboxes_result)
qed

text \<open>
  C8. The break in the ticket-type lookup leaves the innermost loop only: the
  loops over the inboxes and over the ticket types run on, every later
  ticket type associated with an available inbox overwrites the one found
  before, and the ticket type selected is the last associated one in the
  order of \<open>types.TicketTypes\<close> (the zero value when none is associated).
\<close>

theorem lookup_ticket_type_last_match:
  "lookup_ticket_type types inboxes =
     (if filter (associated inboxes) types = [] then zero_TicketType
      else last (filter (associated inboxes) types))"
  unfolding lookup_ticket_type_def by (rule match_types_result)

theorem lookup_ticket_type_last_match_witness:
  "filter (associated [\<lparr>ID = 7\<rparr>, \<lparr>ID = 9\<rparr>])
     [\<lparr>ID = 1, Inboxes = [\<lparr>ID = 7\<rparr>]\<rparr>, \<lparr>ID = 2, Inboxes = [\<lparr>ID = 3\<rparr>]\<rparr>,
      \<lparr>ID = 3, Inboxes = [\<lparr>ID = 5\<rparr>, \<lparr>ID = 7\<rparr>, \<lparr>ID = 9\<rparr>]\<rparr>, \<lparr>ID = 4, Inboxes = []\<rparr>] =
     [\<lparr>ID = 1, Inboxes = [\<lparr>ID = 7\<rparr>]\<rparr>, \<lparr>ID = 3, Inboxes = [\<lparr>ID = 5\<rparr>, \<lparr>ID = 7\<rparr>, \<lparr>ID = 9\<rparr>]\<rparr>] \<and>
   lookup_ticket_type
     [\<lparr>ID = 1, Inboxes = [\<lparr>ID = 7\<rparr>]\<rparr>, \<lparr>ID = 2, Inboxes = [\<lparr>ID = 3\<rparr>]\<rparr>,
      \<lparr>ID = 3, Inboxes = [\<lparr>ID = 5\<rparr>, \<lparr>ID = 7\<rparr>, \<lparr>ID = 9\<rparr>]\<rparr>, \<lparr>ID = 4, Inboxes = []\<rparr>]
     [\<lparr>ID = 7\<rparr>, \<lparr>ID = 9\<rparr>] =
     \<lparr>ID = 3, Inboxes = [\<lparr>ID = 5\<rparr>, \<lparr>ID = 7\<rparr>, \<lparr>ID = 9\<rparr>]\<rparr>"
  using lookup_ticket_type_last_match
    [of "[\<lparr>ID = 1, Inboxes = [\<lparr>ID = 7\<rparr>]\<rparr>, \<lparr>ID = 2, Inboxes = [\<lparr>ID = 3\<rparr>]\<rparr>,
          \<lparr>ID = 3, Inboxes = [\<lparr>ID = 5\<rparr>, \<lparr>ID = 7\<rparr>, \<lparr>ID = 9\<rparr>]\<rparr>, \<lparr>ID = 4, Inboxes = []\<rparr>]"
        "[\<lparr>ID = 7\<rparr>, \<lparr>ID = 9\<rparr>]"]
  by (simp add: associated_def)

section \<open>The generic service\<close>

lemmas service_splits = sum.splits option.splits prod.splits if_splits

lemma log_and_fail_cases:
  "log_and_fail s r err w = (Panic, w) \<and> logger (client s) = None \<or>
   (\<exists>lg. logger (client s) = Some lg \<and> log_and_fail s r err w = (Returned (None, Some err), lg r w))"
  by (cases "logger (client s)") (simp_all add: log_and_fail_def)

lemma log_and_fail_Returned:
  "fst (log_and_fail s r err w) = Returned (x, e) \<Longrightarrow> x = None \<and> e = Some err"
  by (cases "logger (client s)") (simp_all add: log_and_fail_def)

lemma log_and_fail_logger:
  "logger (client s) = Some lg \<Longrightarrow> log_and_fail s r err w = (Returned (None, Some err), lg r w)"
  by (simp add: log_and_fail_def)

lemma Service_Get_Returned:
  "fst (Service_Get g s ctx rid w) = Returned (r, e) \<Longrightarrow> (r = None) \<noteq> (e = None)"
  unfolding Service_Get_def
  by (auto split: service_splits dest: log_and_fail_Returned)

lemma Service_List_Returned:
  "fst (Service_List g s ctx params w) = Returned (r, e) \<Longrightarrow> (r = None) \<noteq> (e = None)"
  unfolding Service_List_def
  by (auto split: service_splits dest: log_and_fail_Returned)

lemma Service_Create_Returned:
  "fst (Service_Create g s ctx resource w) = Returned (r, e) \<Longrightarrow> (r = None) \<noteq> (e = None)"
  unfolding Service_Create_def
  by (auto split: service_splits dest: log_and_fail_Returned)

lemma Service_Update_Returned:
  "fst (Service_Update g s ctx rid resource w) = Returned (r, e) \<Longrightarrow> (r = None) \<noteq> (e = None)"
  unfolding Service_Update_def
  by (auto split: service_splits dest: log_and_fail_Returned)

lemma Service_Get_returns:
  assumes "logger (client s) = Some lg"
    and "\<And>req w. fst (doRequest (client s) ctx req w) \<noteq> (None, None)"
  shows "fst (Service_Get g s ctx rid w) \<noteq> Panic"
  using assms unfolding Service_Get_def
  by (auto simp: log_and_fail_logger split: service_splits) (metis fst_conv)+


lemma Service_List_returns:
  assumes "logger (client s) = Some lg"
    and "\<And>req w. fst (doRequest (client s) ctx req w) \<noteq> (None, None)"
  shows "fst (Service_List g s ctx params w) \<noteq> Panic"
  using assms unfolding Service_List_def
  by (auto simp: log_and_fail_logger split: service_splits) (metis fst_conv)+

lemma Service_Create_returns:
  assumes "logger (client s) = Some lg"
    and "\<And>req w. fst (doRequest (client s) ctx req w) \<noteq> (None, None)"
  shows "fst (Service_Create g s ctx resource w) \<noteq> Panic"
  using assms unfolding Service_Create_def
  by (auto simp: log_and_fail_logger split: service_splits) (metis fst_conv)+

lemma Service_Update_returns:
  assumes "logger (client s) = Some lg"
    and "\<And>req w. fst (doRequest (client s) ctx req w) \<noteq> (None, None)"
  shows "fst (Service_Update g s ctx rid resource w) \<noteq> Panic"
  using assms unfolding Service_Update_def
  by (auto simp: log_and_fail_logger split: service_splits) (metis fst_conv)+

lemmas eval_service =
  Service_Get_def Service_List_def Service_Create_def Service_Update_def log_and_fail_def
  doRequest_def NewClient_def WithLogger_def NewService_def DefaultPathHandler_def Itoa_def
  digit_def Header_Set_def plain_Go_def answering_def recording_logger_def
  example_service_def


lemma Service_Get_unexpected_status:
  assumes "logger (client s) = Some lg"
    and "NewRequestWithContext g ctx ''GET''
           (baseURL (client s) @ ''/'' @ Get_path (router s) rid @ ''.json?includes=all'') None = Inr req"
    and "doRequest (client s) ctx req w = ((Some resp, None), w1)"
    and "StatusCode resp \<noteq> 200"
  shows "Service_Get g s ctx rid w =
     (Returned (None, Some (ErrorString (''unexpected status code: '' @ Itoa (StatusCode resp)))),
      lg \<lparr>msg = ''unexpected status code'',
          attrs = [AInt ''status_code'' (StatusCode resp), AString ''method'' ''GET'',
                   AString ''url'' (URL req), AString ''response_body'' (fst (Body resp))]\<rparr> w1)"
  using assms unfolding Service_Get_def
  by (auto simp: log_and_fail_logger split: service_splits)

lemma Service_List_unexpected_status:
  assumes "logger (client s) = Some lg"
    and "NewRequestWithContext g ctx ''GET''
           (baseURL (client s) @ ''/'' @ List_path (router s) @ ''.json?'' @ Encode g params) None =
         Inr req"
    and "doRequest (client s) ctx req w = ((Some resp, None), w1)"
    and "StatusCode resp \<noteq> 200"
  shows "Service_List g s ctx params w =
     (Returned (None, Some (ErrorString (''unexpected status code: '' @ Itoa (StatusCode resp)))),
      lg \<lparr>msg = ''unexpected status code'',
          attrs = [AInt ''status_code'' (StatusCode resp), AString ''method'' ''GET'',
                   AString ''url'' (URL req), AString ''response_body'' (fst (Body resp))]\<rparr> w1)"
  using assms unfolding Service_List_def
  by (auto simp: log_and_fail_logger split: service_splits)

lemma Service_Update_unexpected_status:
  assumes "logger (client s) = Some lg"
    and "Marshal g resource = Inr body"
    and "NewRequestWithContext g ctx ''PUT''
           (baseURL (client s) @ ''/'' @ Update_path (router s) rid @ ''.json'') (Some body) = Inr req"
    and "doRequest (client s) ctx req w = ((Some resp, None), w1)"
    and "StatusCode resp \<noteq> 200"
  shows "Service_Update g s ctx rid resource w =
     (Returned (None, Some (ErrorString (''unexpected status code: '' @ Itoa (StatusCode resp)))),
      lg \<lparr>msg = ''unexpected status code'',
          attrs = [AInt ''status_code'' (StatusCode resp), AString ''method'' ''PUT'',
                   AString ''url'' (URL req), AString ''response_body'' (fst (Body resp))]\<rparr> w1)"
  using assms unfolding Service_Update_def
  by (auto simp: log_and_fail_logger split: service_splits)

text \<open>
  C3. \<open>Get\<close>, \<open>List\<close> and \<open>Update\<close> on a response whose status is not 200
  return no decoded result and an error that carries the status code, but
  the error does not carry the response body: the body goes to the log record
  only. Here the three run against a server that answers 404 with the body
  \<open>no such ticket\<close>.
\<close>

theorem Service_error_omits_body:
  "Service_Get plain_Go
     (example_service (Some \<lparr>StatusCode = 404, Body = (''no such ticket'', None)\<rparr>, None)) () 7 [] =
   (Returned (None, Some (ErrorString ''unexpected status code: 404'')),
    [\<lparr>msg = ''unexpected status code'',
      attrs = [AInt ''status_code'' 404, AString ''method'' ''GET'',
               AString ''url'' ''https://h/desk/api/v2/tickets/7.json?includes=all'',
               AString ''response_body'' ''no such ticket'']\<rparr>]) \<and>
   Service_List plain_Go
     (example_service (Some \<lparr>StatusCode = 404, Body = (''no such ticket'', None)\<rparr>, None)) ()
     ''page=2'' [] =
   (Returned (None, Some (ErrorString ''unexpected status code: 404'')),
    [\<lparr>msg = ''unexpected status code'',
      attrs = [AInt ''status_code'' 404, AString ''method'' ''GET'',
               AString ''url'' ''https://h/desk/api/v2/tickets.json?page=2'',
               AString ''response_body'' ''no such ticket'']\<rparr>]) \<and>
   Service_Update plain_Go
     (example_service (Some \<lparr>StatusCode = 404, Body = (''no such ticket'', None)\<rparr>, None)) () 7
     ''{}'' [] =
   (Returned (None, Some (ErrorString ''unexpected status code: 404'')),
    [\<lparr>msg = ''unexpected status code'',
      attrs = [AInt ''status_code'' 404, AString ''method'' ''PUT'',
               AString ''url'' ''https://h/desk/api/v2/tickets/7.json'',
               AString ''response_body'' ''no such ticket'']\<rparr>])"
  by (simp add: eval_service)

text \<open>
  C4, as stated, fails when the body of the response cannot be read: \<open>Create\<close>
  then returns the read error, which carries neither the status code nor
  the body. A server answers 500 and the connection breaks after \<open>partial\<close>.
\<close>

theorem Service_Create_read_error_counterexample:
  "fst (Service_Create plain_Go
          (example_service
             (Some \<lparr>StatusCode = 500, Body = (''partial'', Some (ErrorString ''unexpected EOF''))\<rparr>,
              None))
          () ''{}'' []) =
     Returned (None, Some (ErrorString ''unexpected EOF'')) \<and>
   fst (Service_Create plain_Go
          (example_service
             (Some \<lparr>StatusCode = 500, Body = (''partial'', Some (ErrorString ''unexpected EOF''))\<rparr>,
              None))
          () ''{}'' []) \<noteq>
     Returned (None, Some (ErrorString ''unexpected status code: 500, body: partial''))"
  by (simp add: eval_service)

text \<open>
  C4, amended. On a client that has a logger, for every response the request
  pipeline returns without an error: when the status is not 201, \<open>Create\<close>
  returns no entity and an error, which carries the status code and the body
  when the body was read in full and is the read error otherwise; when the
  status is 201, \<open>Create\<close> returns what decoding the body gives, the entity or
  the decoding error.
\<close>

theorem Service_Create_unexpected_status:
  assumes lg: "logger (client s) = Some lg"
    and m: "Marshal g resource = Inr body"
    and nr: "NewRequestWithContext g ctx ''POST''
               (baseURL (client s) @ ''/'' @ Create_path (router s) @ ''.json'') (Some body) = Inr req"
    and dr: "doRequest (client s) ctx req w = ((Some resp, None), w1)"
  shows "fst (Service_Create g s ctx resource w) =
     (if StatusCode resp \<noteq> 201 then
        (case Body resp of
           (b, None) \<Rightarrow>
             Returned (None, Some (ErrorString (''unexpected status code: '' @
                                    Itoa (StatusCode resp) @ '', body: '' @ b)))
         | (b, Some err) \<Rightarrow> Returned (None, Some err))
      else
        (case Decode g (Body resp) of
           Inl err \<Rightarrow> Returned (None, Some err)
         | Inr createdResource \<Rightarrow> Returned (Some createdResource, None)))"
  using assms unfolding Service_Create_def
  by (auto simp: log_and_fail_logger split: service_splits)


theorem Service_Create_unexpected_status_witness:
  "fst (Service_Create plain_Go
          (example_service (Some \<lparr>StatusCode = 500, Body = (''boom'', None)\<rparr>, None)) () ''{}'' []) =
     Returned (None, Some (ErrorString ''unexpected status code: 500, body: boom'')) \<and>
   fst (Service_Create plain_Go
          (example_service (Some \<lparr>StatusCode = 201, Body = (''{id:1}'', None)\<rparr>, None)) () ''{}'' []) =
     Returned (Some ''{id:1}'', None)"
proof -
  let ?req = "\<lparr>Method = ''POST'', URL = ''https://h/desk/api/v2/tickets.json'', Header = Map.empty,
               Payload = Some ''{}'', Ctx = ()\<rparr>"
  let ?w = "[] :: log_record list"
  let ?s = "\<lambda>resp. example_service (Some resp, None) :: (unit, log_record list) Service"
  have lg: "logger (client (?s resp)) = Some recording_logger" for resp
    by (simp add: eval_service)
  have m: "Marshal (plain_Go :: (unit, string, string, string) Go) ''{}'' = Inr ''{}''"
    by (simp add: plain_Go_def)
  have nr: "NewRequestWithContext plain_Go () ''POST''
            (baseURL (client (?s resp)) @ ''/'' @ Create_path (router (?s resp)) @ ''.json'')
            (Some ''{}'') = Inr ?req" for resp
    by (simp add: eval_service)
  have dr: "doRequest (client (?s resp)) () ?req ?w = ((Some resp, None), ?w)" for resp
    by (simp add: eval_service)
  note one = Service_Create_unexpected_status [OF lg m nr dr]
  show ?thesis
    using one [of "\<lparr>StatusCode = 500, Body = (''boom'', None)\<rparr>"]
      one [of "\<lparr>StatusCode = 201, Body = (''{id:1}'', None)\<rparr>"]
    by (simp add: Itoa_def digit_def plain_Go_def)
qed

text \<open>
  C10. Whenever \<open>Get\<close>, \<open>List\<close>, \<open>Create\<close> or \<open>Update\<close> returns, exactly one of
  the result and the error is nil: a result with a nil error, or no result
  with an error. And each of them does return on a client that has a logger
  whose request pipeline never yields a nil response with a nil error; the
  panics left are those of a nil logger on a failure path and of a nil
  response.
\<close>

theorem Service_returns_result_xor_error:
  fixes g :: "('c, 't, 'l, 'p) Go" and s :: "('c, 'w) Service"
  shows
  "(\<forall>r e. fst (Service_Get g s ctx rid w) = Returned (r, e) \<longrightarrow> (r = None) \<noteq> (e = None)) \<and>
   (\<forall>r e. fst (Service_List g s ctx params w) = Returned (r, e) \<longrightarrow> (r = None) \<noteq> (e = None)) \<and>
   (\<forall>r e. fst (Service_Create g s ctx resource w) = Returned (r, e) \<longrightarrow> (r = None) \<noteq> (e = None)) \<and>
   (\<forall>r e. fst (Service_Update g s ctx rid resource w) = Returned (r, e) \<longrightarrow>
      (r = None) \<noteq> (e = None)) \<and>
   (logger (client s) \<noteq> None \<and> (\<forall>req w. fst (doRequest (client s) ctx req w) \<noteq> (None, None)) \<longrightarrow>
      fst (Service_Get g s ctx rid w) \<noteq> Panic \<and>
      fst (Service_List g s ctx params w) \<noteq> Panic \<and>
      fst (Service_Create g s ctx resource w) \<noteq> Panic \<and>
      fst (Service_Update g s ctx rid resource w) \<noteq> Panic)"
proof (intro conjI allI impI)
  fix r e assume "fst (Service_Get g s ctx rid w) = Returned (r, e)"
  then show "(r = None) \<noteq> (e = None)" by (rule Service_Get_Returned)
next
  fix r e assume "fst (Service_List g s ctx params w) = Returned (r, e)"
  then show "(r = None) \<noteq> (e = None)" by (rule Service_List_Returned)
next
  fix r e assume "fst (Service_Create g s ctx resource w) = Returned (r, e)"
  then show "(r = None) \<noteq> (e = None)" by (rule Service_Create_Returned)
next
  fix r e assume "fst (Service_Update g s ctx rid resource w) = Returned (r, e)"
  then show "(r = None) \<noteq> (e = None)" by (rule Service_Update_Returned)
next
  assume a: "logger (client s) \<noteq> None \<and>
    (\<forall>req w. fst (doRequest (client s) ctx req w) \<noteq> (None, None))"
  then obtain lg where lg: "logger (client s) = Some lg" by auto
  from a have dr: "\<And>req w. fst (doRequest (client s) ctx req w) \<noteq> (None, None)" by simp
  show "fst (Service_Get g s ctx rid w) \<noteq> Panic" using lg dr by (rule Service_Get_returns)
  show "fst (Service_List g s ctx params w) \<noteq> Panic" using lg dr by (rule Service_List_returns)
  show "fst (Service_Create g s ctx resource w) \<noteq> Panic" using lg dr by (rule Service_Create_returns)
  show "fst (Service_Update g s ctx rid resource w) \<noteq> Panic"
    using lg dr by (rule Service_Update_returns)
qed


theorem Service_returns_result_xor_error_witness:
  "fst (Service_Get plain_Go
          (example_service (Some \<lparr>StatusCode = 404, Body = (''no such ticket'', None)\<rparr>, None))
          () 7 []) =
     Returned (None, Some (ErrorString ''unexpected status code: 404'')) \<and>
   ((None :: string option) = None) \<noteq> (Some (ErrorString ''unexpected status code: 404'') = None) \<and>
   logger (client (example_service (Some \<lparr>StatusCode = 404, Body = (''no such ticket'', None)\<rparr>, None)
                     :: (unit, log_record list) Service)) \<noteq> None \<and>
   (\<forall>req w. fst (doRequest
                   (client (example_service
                      (Some \<lparr>StatusCode = 404, Body = (''no such ticket'', None)\<rparr>, None)))
                   () req (w :: log_record list)) \<noteq> (None, None)) \<and>
   fst (Service_Get plain_Go
          (example_service (Some \<lparr>StatusCode = 404, Body = (''no such ticket'', None)\<rparr>, None))
          () 7 []) \<noteq> Panic"
  using Service_returns_result_xor_error
    [of plain_Go "example_service (Some \<lparr>StatusCode = 404, Body = (''no such ticket'', None)\<rparr>, None)"
        "()" 7 "[]" "''page=2''" "''{}''"]
  by (simp add: eval_service)

section \<open>Parsing what was serialised\<close>

declare utoa.simps [simp del]

lemma utoa_small: "n < 10 \<Longrightarrow> utoa n = [digit n]"
  by (subst utoa.simps) simp

lemma utoa_large: "\<not> n < 10 \<Longrightarrow> utoa n = utoa (n div 10) @ [digit (n mod 10)]"
  by (subst utoa.simps) simp

lemma digit_table:
  "\<forall>n \<in> set [0..<10]. is_digit (digit n) \<and> digit_val (digit n) = n"
  by code_simp

lemma digit_facts: "n < 10 \<Longrightarrow> is_digit (digit n) \<and> digit_val (digit n) = n"
  using digit_table by simp

lemma parse_string_escape: "parse_string (escape s @ CHR 0x22 # rest) = Some (s, rest)"
  by (induction s) (simp_all add: escape_def)

lemma parse_digits_utoa:
  "parse_digits acc (utoa n @ rest) = parse_digits (acc * 10 ^ length (utoa n) + n) rest"
proof (induction n arbitrary: acc rest rule: utoa.induct)
  case (1 n)
  show ?case
  proof (cases "n < 10")
    case True
    then show ?thesis using digit_facts [of n] by (simp add: utoa_small mult.commute)
  next
    case False
    have d: "is_digit (digit (n mod 10))" "digit_val (digit (n mod 10)) = n mod 10"
      using digit_facts [of "n mod 10"] by simp_all
    have u: "utoa n = utoa (n div 10) @ [digit (n mod 10)]"
      using False by (rule utoa_large)
    have "parse_digits acc (utoa n @ rest) =
          parse_digits acc (utoa (n div 10) @ (digit (n mod 10) # rest))"
      by (simp add: u)
    also have "\<dots> = parse_digits (acc * 10 ^ length (utoa (n div 10)) + n div 10)
          (digit (n mod 10) # rest)"
      using "1.IH" [OF False] by simp
    also have "\<dots> = parse_digits
          (10 * (acc * 10 ^ length (utoa (n div 10)) + n div 10) + n mod 10) rest"
      using d by simp
    also have "10 * (acc * 10 ^ length (utoa (n div 10)) + n div 10) + n mod 10 =
          acc * 10 ^ length (utoa n) + n"
      by (simp add: u algebra_simps)
    finally show ?thesis .
  qed
qed


lemma utoa_hd: "utoa n \<noteq> [] \<and> is_digit (hd (utoa n))"
proof (induction n rule: utoa.induct)
  case (1 n)
  show ?case
  proof (cases "n < 10")
    case True
    then show ?thesis using digit_facts [of n] by (simp add: utoa_small)
  next
    case False
    then show ?thesis using "1.IH" by (simp add: utoa_large)
  qed
qed

lemma parse_digits_stop: "rest = [] \<or> \<not> is_digit (hd rest) \<Longrightarrow> parse_digits acc rest = (acc, rest)"
  by (cases rest) auto

lemma parse_digits_0_utoa:
  "rest = [] \<or> \<not> is_digit (hd rest) \<Longrightarrow> parse_digits 0 (utoa n @ rest) = (n, rest)"
  by (simp add: parse_digits_utoa parse_digits_stop)

lemma not_digit_chars:
  "\<not> is_digit CHR ''-''" "\<not> is_digit CHR ''n''" "\<not> is_digit CHR ''t''" "\<not> is_digit CHR ''f''"
  "\<not> is_digit CHR 0x22" "\<not> is_digit CHR ''[''" "\<not> is_digit CHR ''{''" "\<not> is_digit CHR '']''"
  "\<not> is_digit CHR ''}''" "\<not> is_digit CHR '',''"
  by (simp_all add: is_digit_def)

lemma parse_number_Itoa:
  assumes "rest = [] \<or> \<not> is_digit (hd rest)"
  shows "parse_number (Itoa i @ rest) = Some (JNum i, rest)"
proof (cases "i < 0")
  case True
  obtain c cs where u: "utoa (nat (- i)) = c # cs" and c: "is_digit c"
    using utoa_hd [of "nat (- i)"] by (cases "utoa (nat (- i))") auto
  have "parse_digits 0 (utoa (nat (- i)) @ rest) = (nat (- i), rest)"
    using assms by (rule parse_digits_0_utoa)
  then show ?thesis
    using True u c by (simp add: parse_number_def Itoa_def)
next
  case False
  obtain c cs where u: "utoa (nat i) = c # cs" and c: "is_digit c"
    using utoa_hd [of "nat i"] by (cases "utoa (nat i)") auto
  have "parse_digits 0 (utoa (nat i) @ rest) = (nat i, rest)"
    using assms by (rule parse_digits_0_utoa)
  moreover have "c \<noteq> CHR ''-''" using c not_digit_chars(1) by auto
  ultimately show ?thesis
    using False u c by (simp add: parse_number_def Itoa_def)
qed

lemma Itoa_hd: "\<exists>c cs. Itoa i = c # cs \<and> (c = CHR ''-'' \<or> is_digit c)"
proof (cases "i < 0")
  case True
  then show ?thesis by (simp add: Itoa_def)
next
  case False
  then show ?thesis
    using utoa_hd [of "nat i"] by (cases "utoa (nat i)") (auto simp: Itoa_def)
qed

lemma parse_value_number:
  assumes "rest = [] \<or> \<not> is_digit (hd rest)"
  shows "parse_value (Suc n) (Itoa i @ rest) = Some (JNum i, rest)"
proof -
  obtain c cs where u: "Itoa i = c # cs" and c: "c = CHR ''-'' \<or> is_digit c"
    using Itoa_hd by blast
  have ne: "c \<noteq> CHR ''n''" "c \<noteq> CHR ''t''" "c \<noteq> CHR ''f''" "c \<noteq> CHR 0x22" "c \<noteq> CHR ''[''"
    "c \<noteq> CHR ''{''"
    using c not_digit_chars by auto
  have "parse_value (Suc n) (Itoa i @ rest) = parse_number (Itoa i @ rest)"
    using ne by (simp add: u)
  then show ?thesis using parse_number_Itoa [OF assms] by simp
qed

lemma Marshal_json_hd:
  "\<exists>c cs. Marshal_json j = c # cs \<and> c \<noteq> CHR '']'' \<and> c \<noteq> CHR ''}''"
proof (cases j)
  case (JNum i)
  obtain c cs where "Itoa i = c # cs" "c = CHR ''-'' \<or> is_digit c"
    using Itoa_hd by blast
  then show ?thesis using JNum not_digit_chars by auto
qed (auto simp: quote_def)



lemma parse_elems_commas:
  "(\<And>x n rest. x \<in> set xs \<Longrightarrow> need x \<le> n \<Longrightarrow> rest = [] \<or> \<not> is_digit (hd rest) \<Longrightarrow>
      parse_value n (Marshal_json x @ rest) = Some (x, rest)) \<Longrightarrow>
   xs \<noteq> [] \<Longrightarrow> sum_list (map need xs) + length xs \<le> n \<Longrightarrow>
   parse_elems n (commas (map Marshal_json xs) @ CHR '']'' # rest) = Some (xs, rest)"
proof (induction xs arbitrary: n)
  case Nil
  then show ?case by simp
next
  case (Cons x xs)
  from Cons.prems(3) obtain m where n: "n = Suc m" and m: "need x \<le> m"
    "sum_list (map need xs) + length xs \<le> m"
    by (cases n) auto
  show ?case
  proof (cases xs)
    case Nil
    have "parse_value m (Marshal_json x @ CHR '']'' # rest) = Some (x, CHR '']'' # rest)"
      using Cons.prems(1) [of x m "CHR '']'' # rest"] m(1) not_digit_chars by simp
    then show ?thesis using Nil n by simp
  next
    case (Cons y ys)
    let ?tail = "commas (map Marshal_json xs) @ CHR '']'' # rest"
    have v: "parse_value m (Marshal_json x @ CHR '','' # ?tail) = Some (x, CHR '','' # ?tail)"
      using Cons.prems(1) [of x m "CHR '','' # ?tail"] m(1) not_digit_chars by simp
    have IH': "parse_value n (Marshal_json x @ rest) = Some (x, rest)"
      if "x \<in> set xs" "need x \<le> n" "rest = [] \<or> \<not> is_digit (hd rest)"
      for x n rest
      using that Cons.prems(1) [of x n rest] by simp
    have ne: "xs \<noteq> []" using Cons by simp
    have t: "parse_elems m ?tail = Some (xs, rest)"
      using IH' ne m(2) by (rule Cons.IH)
    have "commas (map Marshal_json (x # xs)) @ CHR '']'' # rest =
          Marshal_json x @ CHR '','' # ?tail"
      using Cons by simp
    then show ?thesis using n v t by simp
  qed
qed

lemma Marshal_members_simps:
  "Marshal_members [] = []"
  "Marshal_members [(k, v)] = quote k @ CHR '':'' # Marshal_json v"
  "Marshal_members ((k, v) # kv' # kvs) =
     quote k @ CHR '':'' # Marshal_json v @ CHR '','' # Marshal_members (kv' # kvs)"
  by (simp_all add: Marshal_members_def)

lemma Marshal_json_JObj: "Marshal_json (JObj kvs) = CHR ''{'' # Marshal_members kvs @ ''}''"
  by (simp add: Marshal_members_def)

lemma parse_members_commas:
  "(\<And>k v n rest. (k, v) \<in> set kvs \<Longrightarrow> need v \<le> n \<Longrightarrow> rest = [] \<or> \<not> is_digit (hd rest) \<Longrightarrow>
      parse_value n (Marshal_json v @ rest) = Some (v, rest)) \<Longrightarrow>
   kvs \<noteq> [] \<Longrightarrow> sum_list (map (\<lambda>kv. need (snd kv)) kvs) + length kvs \<le> n \<Longrightarrow>
   parse_members n (Marshal_members kvs @ CHR ''}'' # rest) = Some (kvs, rest)"
proof (induction kvs arbitrary: n)
  case Nil
  then show ?case by simp
next
  case (Cons kv kvs)
  obtain k v where kv: "kv = (k, v)" by (cases kv)
  from Cons.prems(3) obtain m where n: "n = Suc m" and m: "need v \<le> m"
    "sum_list (map (\<lambda>kv. need (snd kv)) kvs) + length kvs \<le> m"
    by (cases n) (auto simp: kv)
  show ?case
  proof (cases kvs)
    case Nil
    have "parse_value m (Marshal_json v @ CHR ''}'' # rest) = Some (v, CHR ''}'' # rest)"
      using Cons.prems(1) [of k v m "CHR ''}'' # rest"] m(1) not_digit_chars by (simp add: kv)
    then show ?thesis
      using Nil n by (simp add: kv Marshal_members_simps quote_def parse_string_escape)
  next
    case (Cons kv' kvs')
    let ?tail = "Marshal_members kvs @ CHR ''}'' # rest"
    have v: "parse_value m (Marshal_json v @ CHR '','' # ?tail) = Some (v, CHR '','' # ?tail)"
      using Cons.prems(1) [of k v m "CHR '','' # ?tail"] m(1) not_digit_chars by (simp add: kv)
    have IH': "parse_value n (Marshal_json v @ rest) = Some (v, rest)"
      if "(k, v) \<in> set kvs" "need v \<le> n" "rest = [] \<or> \<not> is_digit (hd rest)"
      for k v n rest
      using that Cons.prems(1) [of k v n rest] by simp
    have ne: "kvs \<noteq> []" using Cons by simp
    have t: "parse_members m ?tail = Some (kvs, rest)"
      using IH' ne m(2) by (rule Cons.IH)
    have "Marshal_members (kv # kvs) @ CHR ''}'' # rest =
          quote k @ CHR '':'' # Marshal_json v @ CHR '','' # ?tail"
      using Cons by (simp add: kv Marshal_members_simps)
    then show ?thesis using n v t by (simp add: kv quote_def parse_string_escape)
  qed
qed

lemma parse_value_Marshal_json:
  "need j \<le> n \<Longrightarrow> rest = [] \<or> \<not> is_digit (hd rest) \<Longrightarrow>
   parse_value n (Marshal_json j @ rest) = Some (j, rest)"
proof (induction j arbitrary: n rest)
  case JNull
  then show ?case by (cases n) simp_all
next
  case (JBool b)
  then show ?case by (cases n) simp_all
next
  case (JNum i)
  then obtain m where "n = Suc m" by (cases n) auto
  then show ?case using parse_value_number [OF JNum.prems(2)] by simp
next
  case (JStr s)
  then show ?case by (cases n) (simp_all add: quote_def parse_string_escape)
next
  case (JArr xs)
  from JArr.prems(1) obtain m where n: "n = Suc m" and m: "sum_list (map need xs) + length xs \<le> m"
    by (cases n) auto
  show ?case
  proof (cases xs)
    case Nil
    then show ?thesis using n by simp
  next
    case (Cons y ys)
    then have ne: "xs \<noteq> []" by simp
    have el: "parse_elems m (commas (map Marshal_json xs) @ CHR '']'' # rest) = Some (xs, rest)"
      using JArr.IH ne m by (rule parse_elems_commas)
    obtain c cs where hd: "Marshal_json y = c # cs" "c \<noteq> CHR '']''"
      using Marshal_json_hd by blast
    have "\<exists>cs'. commas (map Marshal_json xs) @ CHR '']'' # rest = c # cs'"
      using Cons hd(1) by (cases ys) simp_all
    then obtain cs' where st: "commas (map Marshal_json xs) @ CHR '']'' # rest = c # cs'" by blast
    show ?thesis using n el hd(2) by (simp add: st)
  qed
next
  case (JObj kvs)
  from JObj.prems(1) obtain m where n: "n = Suc m"
    and m: "sum_list (map (\<lambda>kv. need (snd kv)) kvs) + length kvs \<le> m"
    by (cases n) (auto simp: comp_def)
  show ?case
  proof (cases kvs)
    case Nil
    then show ?thesis using n by (simp add: Marshal_members_def)
  next
    case (Cons kv kvs')
    then have ne: "kvs \<noteq> []" by simp
    have IH: "\<And>k v n rest. (k, v) \<in> set kvs \<Longrightarrow> need v \<le> n \<Longrightarrow>
        rest = [] \<or> \<not> is_digit (hd rest) \<Longrightarrow>
        parse_value n (Marshal_json v @ rest) = Some (v, rest)"
      using JObj.IH by fastforce
    have el: "parse_members m (Marshal_members kvs @ CHR ''}'' # rest) = Some (kvs, rest)"
      using IH ne m by (rule parse_members_commas)
    obtain k v where kv: "kv = (k, v)" by (cases kv)
    have "\<exists>cs'. Marshal_members kvs @ CHR ''}'' # rest = CHR 0x22 # cs'"
      using Cons kv by (cases kvs') (auto simp: Marshal_members_simps quote_def)
    then obtain cs' where st: "Marshal_members kvs @ CHR ''}'' # rest = CHR 0x22 # cs'" by blast
    have "parse_value n (CHR ''{'' # Marshal_members kvs @ CHR ''}'' # rest) = Some (JObj kvs, rest)"
      using n el by (simp add: st)
    then show ?thesis by (simp add: Marshal_json_JObj del: Marshal_json.simps(6))
  qed
qed


lemma commas_length: "sum_list (map length ss) + length ss \<le> Suc (length (commas ss))"
  by (induction ss rule: commas.induct) auto

lemma Marshal_members_length:
  "sum_list (map (\<lambda>kv. length (Marshal_json (snd kv))) kvs) + length kvs \<le>
     Suc (length (Marshal_members kvs))"
proof (induction kvs rule: induct_list012)
  case 1
  show ?case by simp
next
  case (2 kv)
  obtain k v where "kv = (k, v)" by (cases kv)
  then show ?case by (simp add: Marshal_members_simps)
next
  case (3 kv kv' kvs)
  obtain k v where "kv = (k, v)" by (cases kv)
  then show ?case using 3 by (simp add: Marshal_members_simps)
qed

lemma need_bound: "need j \<le> 2 * length (Marshal_json j)"
proof (induction j)
  case JNull
  show ?case by simp
next
  case (JBool b)
  show ?case by simp
next
  case (JNum i)
  obtain c cs where "Itoa i = c # cs" using Itoa_hd by blast
  then show ?case by simp
next
  case (JStr s)
  show ?case by (simp add: quote_def)
next
  case (JArr xs)
  have "sum_list (map need xs) \<le> sum_list (map (\<lambda>x. 2 * length (Marshal_json x)) xs)"
    using JArr.IH by (intro sum_list_mono) simp
  also have "\<dots> = 2 * sum_list (map length (map Marshal_json xs))"
    by (simp add: sum_list_const_mult comp_def)
  finally have a: "sum_list (map need xs) \<le> 2 * sum_list (map length (map Marshal_json xs))" .
  have b: "sum_list (map length (map Marshal_json xs)) + length xs \<le>
           Suc (length (commas (map Marshal_json xs)))"
    using commas_length [of "map Marshal_json xs"] by simp
  show ?case using a b by simp
next
  case (JObj kvs)
  have "sum_list (map (\<lambda>kv. need (snd kv)) kvs) \<le>
        sum_list (map (\<lambda>kv. 2 * length (Marshal_json (snd kv))) kvs)"
    using JObj.IH by (intro sum_list_mono) (auto simp: snds.simps)
  also have "\<dots> = 2 * sum_list (map (\<lambda>kv. length (Marshal_json (snd kv))) kvs)"
    by (simp add: sum_list_const_mult)
  finally have a: "sum_list (map (\<lambda>kv. need (snd kv)) kvs) \<le>
        2 * sum_list (map (\<lambda>kv. length (Marshal_json (snd kv))) kvs)" .
  have b: "sum_list (map (\<lambda>kv. length (Marshal_json (snd kv))) kvs) + length kvs \<le>
     Suc (length (Marshal_members kvs))"
    by (rule Marshal_members_length)
  have "need (JObj kvs) = Suc (sum_list (map (\<lambda>kv. need (snd kv)) kvs) + length kvs)"
    by (simp add: comp_def)
  moreover have "length (Marshal_json (JObj kvs)) = Suc (Suc (length (Marshal_members kvs)))"
    by (simp add: Marshal_json_JObj del: Marshal_json.simps(6))
  ultimately show ?case using a b by simp
qed

lemma Unmarshal_Marshal_json: "Unmarshal (Marshal_json j) = Some j"
proof -
  have "parse_value (2 * length (Marshal_json j)) (Marshal_json j @ []) = Some (j, [])"
    using need_bound by (rule parse_value_Marshal_json) simp
  then show ?thesis by (simp add: Unmarshal_def)
qed

section \<open>The filter builder\<close>

lemma Unmarshal_Build: "Unmarshal (Build f) = Some (JObj (filter_doc f))"
  unfolding Build_def by (rule Unmarshal_Marshal_json)

lemma operator_string_inj: "operator_string a = operator_string b \<Longrightarrow> a = b"
  by (cases a; cases b) simp_all

lemmas filter_defs = Eq_def Ne_def Lt_def Lte_def Gt_def Gte_def In_def Nin_def And_def Or_def
  combine_def addCondition_def operators_under_def NewFilter_def

text \<open>
  C5. On a fresh builder each of \<open>Eq\<close>, \<open>Ne\<close>, \<open>Lt\<close>, \<open>Lte\<close>, \<open>Gt\<close>, \<open>Gte\<close>, for
  every field and value, builds a text that parses to a document whose field
  key holds an object with exactly the one key of the operator, mapped to
  the value; and a second comparison on the same field with another
  operator leaves the first operator's key in place and adds its own.
\<close>

theorem comparison_builds_one_key_per_operator:
  "Unmarshal (Build (Eq field v NewFilter)) = Some (JObj [(field, JObj [(''$eq'', v)])]) \<and>
   Unmarshal (Build (Ne field v NewFilter)) = Some (JObj [(field, JObj [(''$ne'', v)])]) \<and>
   Unmarshal (Build (Lt field v NewFilter)) = Some (JObj [(field, JObj [(''$lt'', v)])]) \<and>
   Unmarshal (Build (Lte field v NewFilter)) = Some (JObj [(field, JObj [(''$lte'', v)])]) \<and>
   Unmarshal (Build (Gt field v NewFilter)) = Some (JObj [(field, JObj [(''$gt'', v)])]) \<and>
   Unmarshal (Build (Gte field v NewFilter)) = Some (JObj [(field, JObj [(''$gte'', v)])]) \<and>
   (op1 \<noteq> op2 \<longrightarrow>
      Unmarshal (Build (addCondition field op2 v2 (addCondition field op1 v1 NewFilter))) =
        Some (JObj [(field, JObj [(operator_string op1, v1), (operator_string op2, v2)])]))"
proof -
  have "operator_string op1 \<noteq> operator_string op2" if "op1 \<noteq> op2"
    using that operator_string_inj by blast
  then show ?thesis
    by (simp add: Unmarshal_Build filter_defs)
qed

theorem comparison_builds_one_key_per_operator_witness:
  "OpGte \<noteq> OpLte \<and>
   Gte ''priority'' (JNum 1) NewFilter = addCondition ''priority'' OpGte (JNum 1) NewFilter \<and>
   Unmarshal (Build (Lte ''priority'' (JNum 5) (Gte ''priority'' (JNum 1) NewFilter))) =
     Some (JObj [(''priority'', JObj [(''$gte'', JNum 1), (''$lte'', JNum 5)])])"
  using comparison_builds_one_key_per_operator
    [of "''priority''" "JNum 1" OpGte OpLte "JNum 5" "JNum 1"]
  by (simp add: Gte_def Lte_def)

text \<open>
  C6. For sub-filters \<open>A\<close> and \<open>B\<close>, the text \<open>And(A, B)\<close> builds parses to the
  document with the one key \<open>$and\<close> holding the array of what the texts of
  \<open>A\<close> and of \<open>B\<close> parse to, in that order; likewise \<open>Or\<close> with \<open>$or\<close>.
\<close>

theorem And_Or_build:
  "\<exists>a b. Unmarshal (Build A) = Some a \<and> Unmarshal (Build B) = Some b \<and>
     Unmarshal (Build (And [A, B] NewFilter)) = Some (JObj [(''$and'', JArr [a, b])]) \<and>
     Unmarshal (Build (Or [A, B] NewFilter)) = Some (JObj [(''$or'', JArr [a, b])])"
  by (simp add: Unmarshal_Build filter_defs)

theorem And_Or_build_witness:
  "Unmarshal (Build (Eq ''status'' (JStr ''open'') NewFilter)) =
     Some (JObj [(''status'', JObj [(''$eq'', JStr ''open'')])]) \<and>
   Unmarshal (Build (Gt ''priority'' (JNum 2) NewFilter)) =
     Some (JObj [(''priority'', JObj [(''$gt'', JNum 2)])]) \<and>
   Unmarshal (Build (And [Eq ''status'' (JStr ''open'') NewFilter,
                          Gt ''priority'' (JNum 2) NewFilter] NewFilter)) =
     Some (JObj [(''$and'', JArr [JObj [(''status'', JObj [(''$eq'', JStr ''open'')])],
                                  JObj [(''priority'', JObj [(''$gt'', JNum 2)])]])])"
  using And_Or_build [of "Eq ''status'' (JStr ''open'') NewFilter"
      "Gt ''priority'' (JNum 2) NewFilter"]
  by (simp add: Unmarshal_Build filter_defs)

text \<open>
  The texts the tests of the builder expect: a comparison, the empty filter,
  \<open>In\<close> with a null, and \<open>And\<close> of two comparisons.
\<close>

lemma Build_examples:
  "Build (Eq ''status'' (JStr ''open'') NewFilter) =
     ''{'' @ quote ''status'' @ '':{'' @ quote ''$eq'' @ '':'' @ quote ''open'' @ ''}}''"
  "Build NewFilter = ''{}''"
  "Build (In ''assignee'' [JNull, JStr ''user1''] NewFilter) =
     ''{'' @ quote ''assignee'' @ '':{'' @ quote ''$in'' @ '':[null,'' @ quote ''user1'' @ '']}}''"
  "Build (And [Eq ''status'' (JStr ''open'') NewFilter, Gt ''priority'' (JNum 2) NewFilter] NewFilter) =
     ''{'' @ quote ''$and'' @ '':[{'' @ quote ''status'' @ '':{'' @ quote ''$eq'' @ '':'' @ quote ''open'' @
     ''}},{'' @ quote ''priority'' @ '':{'' @ quote ''$gt'' @ '':2}}]}''"
  by (simp_all add: Build_def filter_defs quote_def escape_def Itoa_def utoa.simps digit_def)

end
